theory Spec2Isabelle
  imports Main "HOL-Library.Sublist"
begin

section \<open>Tokens and the lexer state (so\_lang.h)\<close>

text \<open>
  The capacities of so\_lang.h: \<^verbatim>\<open>#define MAX_TOKEN_LEN 256\<close>,
  \<^verbatim>\<open>#define MAX_TOKENS 1000\<close>, \<^verbatim>\<open>#define MAX_FUNCTIONS 50\<close>.
\<close>

definition MAX_TOKEN_LEN :: nat where
  "MAX_TOKEN_LEN = 256"

definition MAX_TOKENS :: nat where
  "MAX_TOKENS = 1000"

definition MAX_FUNCTIONS :: nat where
  "MAX_FUNCTIONS = 50"

datatype TokenType =
    TOKEN_EOF | TOKEN_LET | TOKEN_FN | TOKEN_IF | TOKEN_ELSE | TOKEN_RETURN | TOKEN_PRINT
  | TOKEN_IDENTIFIER | TOKEN_NUMBER | TOKEN_STRING | TOKEN_ASSIGN
  | TOKEN_PLUS | TOKEN_MINUS | TOKEN_MULTIPLY | TOKEN_DIVIDE
  | TOKEN_EQUAL | TOKEN_NOT_EQUAL | TOKEN_LESS | TOKEN_GREATER
  | TOKEN_LPAREN | TOKEN_RPAREN | TOKEN_LBRACE | TOKEN_RBRACE
  | TOKEN_COMMA | TOKEN_SEMICOLON | TOKEN_NEWLINE
  | TOKEN_PROGRAM | TOKEN_INSTRUCTION | TOKEN_ACCOUNT | TOKEN_STATE | TOKEN_PUBKEY
  | TOKEN_SIGNER | TOKEN_WRITABLE | TOKEN_INIT | TOKEN_SEEDS | TOKEN_BUMP
  | TOKEN_TRANSFER | TOKEN_REQUIRE | TOKEN_EMIT | TOKEN_AT_SYMBOL

record Token =
  ttype :: TokenType
  tvalue :: string
  tline :: nat
  tcolumn :: nat

text \<open>
  The \<^verbatim>\<open>Lexer\<close> struct. \<open>source\<close> holds the characters of the C string before
  its terminating NUL, \<open>tokens\<close> the filled part of the array \<^verbatim>\<open>tokens[MAX_TOKENS]\<close>
  (so \<^verbatim>\<open>token_count\<close> is \<open>length tokens\<close>), and \<open>has_error\<close> is the file-level
  flag \<^verbatim>\<open>static bool has_error\<close> that \<^verbatim>\<open>error()\<close> sets.
\<close>

record Lexer =
  source :: string
  pos :: nat
  line :: nat
  column :: nat
  tokens :: "Token list"
  has_error :: bool

definition NUL :: char where
  "NUL = CHR 0x00"

definition isdigit :: "char \<Rightarrow> bool" where
  "isdigit c = (48 \<le> (of_char c :: nat) \<and> (of_char c :: nat) \<le> 57)"

definition isalpha :: "char \<Rightarrow> bool" where
  "isalpha c = ((65 \<le> (of_char c :: nat) \<and> (of_char c :: nat) \<le> 90)
              \<or> (97 \<le> (of_char c :: nat) \<and> (of_char c :: nat) \<le> 122))"

definition isalnum :: "char \<Rightarrow> bool" where
  "isalnum c = (isalpha c \<or> isdigit c)"

definition isspace :: "char \<Rightarrow> bool" where
  "isspace c = ((of_char c :: nat) = 32 \<or> (9 \<le> (of_char c :: nat) \<and> (of_char c :: nat) \<le> 13))"

definition error :: "Lexer \<Rightarrow> Lexer" where
  "error L = L\<lparr>has_error := True\<rparr>"

text \<open>
  \<^verbatim>\<open>lexer_create\<close>; \<open>has_error\<close> starts with the value of its initialiser,
  \<^verbatim>\<open>false\<close>.
\<close>

definition lexer_create :: "string \<Rightarrow> Lexer" where
  "lexer_create src =
     \<lparr>source = src, pos = 0, line = 1, column = 1, tokens = [], has_error = False\<rparr>"

definition source_at :: "string \<Rightarrow> nat \<Rightarrow> char" where
  "source_at s i = (if i < length s then s ! i else NUL)"

definition lexer_current_char :: "Lexer \<Rightarrow> char" where
  "lexer_current_char L = (if pos L \<ge> length (source L) then NUL else source L ! pos L)"

definition lexer_advance :: "Lexer \<Rightarrow> Lexer" where
  "lexer_advance L =
     (let c = lexer_current_char L in
      if c = CHR 0x0A then L\<lparr>pos := pos L + 1, line := line L + 1, column := 1\<rparr>
      else L\<lparr>pos := pos L + 1, column := column L + 1\<rparr>)"

lemma char_class_NUL [simp]:
  "\<not> isdigit NUL" "\<not> isalpha NUL" "\<not> isalnum NUL" "\<not> isspace NUL"
  "NUL \<noteq> CHR ''_''" "NUL \<noteq> CHR ''.''" "NUL \<noteq> CHR 0x0A" "NUL \<noteq> CHR 0x22"
  by (simp_all add: isdigit_def isalpha_def isalnum_def isspace_def NUL_def)

lemma lexer_current_char_in_range:
  "lexer_current_char L \<noteq> NUL \<Longrightarrow> pos L < length (source L)"
  by (simp add: lexer_current_char_def split: if_splits)

lemma lexer_advance_measure:
  "lexer_current_char L \<noteq> NUL \<Longrightarrow>
   length (source (lexer_advance L)) - pos (lexer_advance L) < length (source L) - pos L"
  using lexer_current_char_in_range [of L] by (simp add: lexer_advance_def Let_def)

function lexer_skip_whitespace :: "Lexer \<Rightarrow> Lexer" where
  "lexer_skip_whitespace L =
     (if isspace (lexer_current_char L) \<and> lexer_current_char L \<noteq> CHR 0x0A
      then lexer_skip_whitespace (lexer_advance L) else L)"
  by pat_completeness auto
termination
proof (relation "measure (\<lambda>L. length (source L) - pos L)")
  fix L :: Lexer
  assume "isspace (lexer_current_char L) \<and> lexer_current_char L \<noteq> CHR 0x0A"
  then have "lexer_current_char L \<noteq> NUL"
    using char_class_NUL(4) by metis
  then show "(lexer_advance L, L) \<in> measure (\<lambda>L. length (source L) - pos L)"
    using lexer_advance_measure by simp
qed simp

declare lexer_skip_whitespace.simps [simp del]

text \<open>
  The characters of a C string held in a buffer: those before the first NUL.
  \<^verbatim>\<open>strncpy(token->value, value, MAX_TOKEN_LEN - 1)\<close> followed by
  \<^verbatim>\<open>token->value[MAX_TOKEN_LEN - 1] = 0\<close> stores its first 255 characters.
\<close>

definition c_string :: "string \<Rightarrow> string" where
  "c_string v = takeWhile (\<lambda>c. c \<noteq> NUL) v"

definition lexer_add_token :: "Lexer \<Rightarrow> TokenType \<Rightarrow> string \<Rightarrow> Lexer" where
  "lexer_add_token L ty v =
     (if length (tokens L) \<ge> MAX_TOKENS then error L
      else L\<lparr>tokens := tokens L @
             [\<lparr>ttype = ty, tvalue = take (MAX_TOKEN_LEN - 1) (c_string v),
               tline = line L, tcolumn = column L\<rparr>]\<rparr>)"

section \<open>The lexer of so\_lang.c\<close>

text \<open>
  The scanning loops keep the local \<^verbatim>\<open>char buffer[MAX_TOKEN_LEN]\<close> as the list of
  the characters stored so far; the index \<^verbatim>\<open>i\<close> is its length. In this lexer every
  store \<^verbatim>\<open>buffer[i++]\<close> is guarded by \<^verbatim>\<open>i < MAX_TOKEN_LEN - 1\<close>.
\<close>

function lexer_read_string_loop :: "Lexer \<Rightarrow> string \<Rightarrow> Lexer \<times> string" where
  "lexer_read_string_loop L buffer =
     (if lexer_current_char L \<noteq> CHR 0x22 \<and> lexer_current_char L \<noteq> NUL
      then lexer_read_string_loop (lexer_advance L)
             (if length buffer < MAX_TOKEN_LEN - 1 then buffer @ [lexer_current_char L]
              else buffer)
      else (L, buffer))"
  by pat_completeness auto
termination
  by (relation "measure (\<lambda>(L, b). length (source L) - pos L)")
     (simp_all add: lexer_advance_measure)

declare lexer_read_string_loop.simps [simp del]

definition lexer_read_string :: "Lexer \<Rightarrow> Lexer" where
  "lexer_read_string L =
     (let (L1, buffer) = lexer_read_string_loop (lexer_advance L) [];
          L2 = (if lexer_current_char L1 = CHR 0x22 then lexer_advance L1 else L1)
      in lexer_add_token L2 TOKEN_STRING buffer)"

function lexer_read_identifier_loop :: "Lexer \<Rightarrow> string \<Rightarrow> Lexer \<times> string" where
  "lexer_read_identifier_loop L buffer =
     (if isalnum (lexer_current_char L) \<or> lexer_current_char L = CHR ''_''
      then lexer_read_identifier_loop (lexer_advance L)
             (if length buffer < MAX_TOKEN_LEN - 1 then buffer @ [lexer_current_char L]
              else buffer)
      else (L, buffer))"
  by pat_completeness auto
termination
proof (relation "measure (\<lambda>(L, b). length (source L) - pos L)")
  fix L :: Lexer and buffer :: string
  assume "isalnum (lexer_current_char L) \<or> lexer_current_char L = CHR ''_''"
  then have "lexer_current_char L \<noteq> NUL"
    using char_class_NUL(3,5) by metis
  then show "((lexer_advance L,
               if length buffer < MAX_TOKEN_LEN - 1 then buffer @ [lexer_current_char L]
               else buffer), L, buffer)
             \<in> measure (\<lambda>(L, b). length (source L) - pos L)"
    using lexer_advance_measure by simp
qed simp

declare lexer_read_identifier_loop.simps [simp del]

definition keyword_type :: "string \<Rightarrow> TokenType" where
  "keyword_type buffer =
     (if buffer = ''let'' then TOKEN_LET
      else if buffer = ''fn'' then TOKEN_FN
      else if buffer = ''if'' then TOKEN_IF
      else if buffer = ''else'' then TOKEN_ELSE
      else if buffer = ''return'' then TOKEN_RETURN
      else if buffer = ''print'' then TOKEN_PRINT
      else if buffer = ''program'' then TOKEN_PROGRAM
      else if buffer = ''instruction'' then TOKEN_INSTRUCTION
      else if buffer = ''account'' then TOKEN_ACCOUNT
      else if buffer = ''state'' then TOKEN_STATE
      else if buffer = ''pubkey'' then TOKEN_PUBKEY
      else if buffer = ''signer'' then TOKEN_SIGNER
      else if buffer = ''writable'' then TOKEN_WRITABLE
      else if buffer = ''init'' then TOKEN_INIT
      else if buffer = ''seeds'' then TOKEN_SEEDS
      else if buffer = ''bump'' then TOKEN_BUMP
      else if buffer = ''transfer'' then TOKEN_TRANSFER
      else if buffer = ''require'' then TOKEN_REQUIRE
      else if buffer = ''emit'' then TOKEN_EMIT
      else TOKEN_IDENTIFIER)"

definition lexer_read_identifier :: "Lexer \<Rightarrow> Lexer" where
  "lexer_read_identifier L =
     (let (L1, buffer) = lexer_read_identifier_loop L []
      in lexer_add_token L1 (keyword_type buffer) buffer)"

function lexer_read_number_loop :: "Lexer \<Rightarrow> string \<Rightarrow> Lexer \<times> string" where
  "lexer_read_number_loop L buffer =
     (if isdigit (lexer_current_char L) \<or> lexer_current_char L = CHR ''.''
      then lexer_read_number_loop (lexer_advance L)
             (if length buffer < MAX_TOKEN_LEN - 1 then buffer @ [lexer_current_char L]
              else buffer)
      else (L, buffer))"
  by pat_completeness auto
termination
proof (relation "measure (\<lambda>(L, b). length (source L) - pos L)")
  fix L :: Lexer and buffer :: string
  assume "isdigit (lexer_current_char L) \<or> lexer_current_char L = CHR ''.''"
  then have "lexer_current_char L \<noteq> NUL"
    using char_class_NUL(1,6) by metis
  then show "((lexer_advance L,
               if length buffer < MAX_TOKEN_LEN - 1 then buffer @ [lexer_current_char L]
               else buffer), L, buffer)
             \<in> measure (\<lambda>(L, b). length (source L) - pos L)"
    using lexer_advance_measure by simp
qed simp

declare lexer_read_number_loop.simps [simp del]

definition lexer_read_number :: "Lexer \<Rightarrow> Lexer" where
  "lexer_read_number L =
     (let (L1, buffer) = lexer_read_number_loop L []
      in lexer_add_token L1 TOKEN_NUMBER buffer)"

text \<open>
  The \<^verbatim>\<open>switch (c)\<close> of the last branch of the scanning loop, with the
  \<^verbatim>\<open>lexer_advance\<close> that follows it. \<^verbatim>\<open>lexer->source[lexer->pos + 1]\<close> reads the
  terminating NUL when \<open>c\<close> is the last character.
\<close>

definition lexer_punctuation :: "Lexer \<Rightarrow> char \<Rightarrow> Lexer" where
  "lexer_punctuation L c =
     lexer_advance
      (if c = CHR ''='' then
         (if source_at (source L) (pos L + 1) = CHR ''=''
          then lexer_add_token (lexer_advance L) TOKEN_EQUAL ''==''
          else lexer_add_token L TOKEN_ASSIGN ''='')
       else if c = CHR ''+'' then lexer_add_token L TOKEN_PLUS [c]
       else if c = CHR ''-'' then lexer_add_token L TOKEN_MINUS [c]
       else if c = CHR ''*'' then lexer_add_token L TOKEN_MULTIPLY [c]
       else if c = CHR ''/'' then lexer_add_token L TOKEN_DIVIDE [c]
       else if c = CHR ''<'' then lexer_add_token L TOKEN_LESS [c]
       else if c = CHR ''>'' then lexer_add_token L TOKEN_GREATER [c]
       else if c = CHR ''('' then lexer_add_token L TOKEN_LPAREN [c]
       else if c = CHR '')'' then lexer_add_token L TOKEN_RPAREN [c]
       else if c = CHR ''{'' then lexer_add_token L TOKEN_LBRACE [c]
       else if c = CHR ''}'' then lexer_add_token L TOKEN_RBRACE [c]
       else if c = CHR '','' then lexer_add_token L TOKEN_COMMA [c]
       else if c = CHR '';'' then lexer_add_token L TOKEN_SEMICOLON [c]
       else if c = CHR ''@'' then lexer_add_token L TOKEN_AT_SYMBOL [c]
       else error L)"

text \<open>One iteration of the \<^verbatim>\<open>while\<close> loop of \<^verbatim>\<open>lexer_tokenize\<close>.\<close>

definition lexer_tokenize_body :: "Lexer \<Rightarrow> Lexer" where
  "lexer_tokenize_body L =
     (let c = lexer_current_char L in
      if isspace c \<and> c \<noteq> CHR 0x0A then lexer_skip_whitespace L
      else if c = CHR 0x0A then lexer_advance (lexer_add_token L TOKEN_NEWLINE [CHR 0x0A])
      else if c = CHR 0x22 then lexer_read_string L
      else if isalpha c \<or> c = CHR ''_'' then lexer_read_identifier L
      else if isdigit c then lexer_read_number L
      else lexer_punctuation L c)"

lemma lexer_advance_fields [simp]:
  "source (lexer_advance L) = source L" "pos (lexer_advance L) = pos L + 1"
  "tokens (lexer_advance L) = tokens L" "has_error (lexer_advance L) = has_error L"
  by (simp_all add: lexer_advance_def Let_def)

lemma lexer_add_token_fields [simp]:
  "source (lexer_add_token L ty v) = source L" "pos (lexer_add_token L ty v) = pos L"
  by (simp_all add: lexer_add_token_def error_def)

lemma error_fields [simp]:
  "source (error L) = source L" "pos (error L) = pos L" "tokens (error L) = tokens L"
  "has_error (error L)"
  by (simp_all add: error_def)

lemma lexer_current_char_advance_add [simp]:
  "lexer_current_char (lexer_add_token L ty v) = lexer_current_char L"
  "lexer_current_char (error L) = lexer_current_char L"
  by (simp_all add: lexer_current_char_def)

lemma lexer_skip_whitespace_source [simp]:
  "source (lexer_skip_whitespace L) = source L"
proof (induction L rule: lexer_skip_whitespace.induct)
  case (1 L)
  then show ?case
    by (subst lexer_skip_whitespace.simps) simp
qed

lemma lexer_skip_whitespace_pos: "pos L \<le> pos (lexer_skip_whitespace L)"
proof (induction L rule: lexer_skip_whitespace.induct)
  case (1 L)
  show ?case
  proof (cases "isspace (lexer_current_char L) \<and> lexer_current_char L \<noteq> CHR 0x0A")
    case True
    with 1 have "pos (lexer_advance L) \<le> pos (lexer_skip_whitespace (lexer_advance L))"
      by simp
    with True show ?thesis
      by (subst lexer_skip_whitespace.simps) simp
  next
    case False
    then show ?thesis
      by (subst lexer_skip_whitespace.simps) auto
  qed
qed

lemma lexer_skip_whitespace_progress:
  assumes "isspace (lexer_current_char L)" "lexer_current_char L \<noteq> CHR 0x0A"
  shows "pos L < pos (lexer_skip_whitespace L)"
proof -
  have "pos (lexer_advance L) \<le> pos (lexer_skip_whitespace (lexer_advance L))"
    by (rule lexer_skip_whitespace_pos)
  with assms show ?thesis
    by (subst lexer_skip_whitespace.simps) simp
qed

lemma lexer_read_string_loop_source [simp]:
  "source (fst (lexer_read_string_loop L b)) = source L"
proof (induction L b rule: lexer_read_string_loop.induct)
  case (1 L buffer)
  then show ?case
    by (subst lexer_read_string_loop.simps) simp
qed

lemma lexer_read_string_loop_pos: "pos L \<le> pos (fst (lexer_read_string_loop L b))"
proof (induction L b rule: lexer_read_string_loop.induct)
  case (1 L buffer)
  show ?case
  proof (cases "lexer_current_char L \<noteq> CHR 0x22 \<and> lexer_current_char L \<noteq> NUL")
    case True
    with 1 have "pos (lexer_advance L) \<le> pos (fst (lexer_read_string_loop (lexer_advance L)
          (if length buffer < MAX_TOKEN_LEN - 1 then buffer @ [lexer_current_char L]
           else buffer)))"
      by simp
    with True show ?thesis
      by (subst lexer_read_string_loop.simps) simp
  next
    case False
    then show ?thesis
      by (subst lexer_read_string_loop.simps) auto
  qed
qed

lemma lexer_read_identifier_loop_source [simp]:
  "source (fst (lexer_read_identifier_loop L b)) = source L"
proof (induction L b rule: lexer_read_identifier_loop.induct)
  case (1 L buffer)
  then show ?case
    by (subst lexer_read_identifier_loop.simps) simp
qed

lemma lexer_read_identifier_loop_pos: "pos L \<le> pos (fst (lexer_read_identifier_loop L b))"
proof (induction L b rule: lexer_read_identifier_loop.induct)
  case (1 L buffer)
  show ?case
  proof (cases "isalnum (lexer_current_char L) \<or> lexer_current_char L = CHR ''_''")
    case True
    with 1 have "pos (lexer_advance L) \<le> pos (fst (lexer_read_identifier_loop (lexer_advance L)
          (if length buffer < MAX_TOKEN_LEN - 1 then buffer @ [lexer_current_char L]
           else buffer)))"
      by simp
    with True show ?thesis
      by (subst lexer_read_identifier_loop.simps) simp
  next
    case False
    then show ?thesis
      by (subst lexer_read_identifier_loop.simps) auto
  qed
qed

lemma lexer_read_number_loop_source [simp]:
  "source (fst (lexer_read_number_loop L b)) = source L"
proof (induction L b rule: lexer_read_number_loop.induct)
  case (1 L buffer)
  then show ?case
    by (subst lexer_read_number_loop.simps) simp
qed

lemma lexer_read_number_loop_pos: "pos L \<le> pos (fst (lexer_read_number_loop L b))"
proof (induction L b rule: lexer_read_number_loop.induct)
  case (1 L buffer)
  show ?case
  proof (cases "isdigit (lexer_current_char L) \<or> lexer_current_char L = CHR ''.''")
    case True
    with 1 have "pos (lexer_advance L) \<le> pos (fst (lexer_read_number_loop (lexer_advance L)
          (if length buffer < MAX_TOKEN_LEN - 1 then buffer @ [lexer_current_char L]
           else buffer)))"
      by simp
    with True show ?thesis
      by (subst lexer_read_number_loop.simps) simp
  next
    case False
    then show ?thesis
      by (subst lexer_read_number_loop.simps) auto
  qed
qed

lemma lexer_read_string_source [simp]: "source (lexer_read_string L) = source L"
  by (simp add: lexer_read_string_def Let_def split: prod.splits)
     (metis fst_conv lexer_read_string_loop_source lexer_advance_fields(1))

lemma lexer_read_string_progress: "pos L < pos (lexer_read_string L)"
proof -
  obtain L1 buffer where r: "lexer_read_string_loop (lexer_advance L) [] = (L1, buffer)"
    by (cases "lexer_read_string_loop (lexer_advance L) []")
  have "pos (lexer_advance L) \<le> pos L1"
    using lexer_read_string_loop_pos [of "lexer_advance L" "[]"] r by simp
  then show ?thesis
    by (simp add: lexer_read_string_def r Let_def)
qed

lemma lexer_read_identifier_source [simp]: "source (lexer_read_identifier L) = source L"
  by (simp add: lexer_read_identifier_def Let_def split: prod.splits)
     (metis fst_conv lexer_read_identifier_loop_source)

lemma lexer_read_identifier_progress:
  assumes "isalpha (lexer_current_char L) \<or> lexer_current_char L = CHR ''_''"
  shows "pos L < pos (lexer_read_identifier L)"
proof -
  let ?b = "if length ([]::string) < MAX_TOKEN_LEN - 1 then [] @ [lexer_current_char L] else []"
  obtain L1 buffer where r: "lexer_read_identifier_loop (lexer_advance L) ?b = (L1, buffer)"
    by (cases "lexer_read_identifier_loop (lexer_advance L) ?b")
  have "pos (lexer_advance L) \<le> pos L1"
    using lexer_read_identifier_loop_pos [of "lexer_advance L" ?b] r by simp
  moreover have "lexer_read_identifier_loop L [] = (L1, buffer)"
    using assms r by (subst lexer_read_identifier_loop.simps) (auto simp: isalnum_def)
  ultimately show ?thesis
    by (simp add: lexer_read_identifier_def Let_def)
qed

lemma lexer_read_number_source [simp]: "source (lexer_read_number L) = source L"
  by (simp add: lexer_read_number_def Let_def split: prod.splits)
     (metis fst_conv lexer_read_number_loop_source)

lemma lexer_read_number_progress:
  assumes "isdigit (lexer_current_char L)"
  shows "pos L < pos (lexer_read_number L)"
proof -
  let ?b = "if length ([]::string) < MAX_TOKEN_LEN - 1 then [] @ [lexer_current_char L] else []"
  obtain L1 buffer where r: "lexer_read_number_loop (lexer_advance L) ?b = (L1, buffer)"
    by (cases "lexer_read_number_loop (lexer_advance L) ?b")
  have "pos (lexer_advance L) \<le> pos L1"
    using lexer_read_number_loop_pos [of "lexer_advance L" ?b] r by simp
  moreover have "lexer_read_number_loop L [] = (L1, buffer)"
    using assms r by (subst lexer_read_number_loop.simps) auto
  ultimately show ?thesis
    by (simp add: lexer_read_number_def Let_def)
qed

lemma lexer_punctuation_source [simp]: "source (lexer_punctuation L c) = source L"
  by (simp add: lexer_punctuation_def)

lemma lexer_punctuation_progress: "pos L < pos (lexer_punctuation L c)"
  by (simp add: lexer_punctuation_def)

lemma lexer_tokenize_body_source [simp]: "source (lexer_tokenize_body L) = source L"
  by (simp add: lexer_tokenize_body_def Let_def)

lemma lexer_tokenize_body_progress: "pos L < pos (lexer_tokenize_body L)"
  by (simp add: lexer_tokenize_body_def Let_def lexer_skip_whitespace_progress
        lexer_read_string_progress lexer_read_identifier_progress lexer_read_number_progress
        lexer_punctuation_progress)

function lexer_tokenize_loop :: "Lexer \<Rightarrow> Lexer" where
  "lexer_tokenize_loop L =
     (if lexer_current_char L \<noteq> NUL then lexer_tokenize_loop (lexer_tokenize_body L) else L)"
  by pat_completeness auto
termination
proof (relation "measure (\<lambda>L. length (source L) - pos L)")
  fix L :: Lexer
  assume "lexer_current_char L \<noteq> NUL"
  then have "pos L < length (source L)"
    by (rule lexer_current_char_in_range)
  then show "(lexer_tokenize_body L, L) \<in> measure (\<lambda>L. length (source L) - pos L)"
    using lexer_tokenize_body_progress [of L] by simp
qed simp

declare lexer_tokenize_loop.simps [simp del]

definition lexer_tokenize :: "Lexer \<Rightarrow> Lexer" where
  "lexer_tokenize L = lexer_add_token (lexer_tokenize_loop L) TOKEN_EOF []"

section \<open>The driver (main of so\_lang.c)\<close>

text \<open>
  \<^verbatim>\<open>main\<close> from the call of \<^verbatim>\<open>lexer_create\<close> on, given the text read by
  \<^verbatim>\<open>read_file\<close>. The events record which stages were called. The stages after the
  lexer are parameters: \<open>parse\<close> stands for \<^verbatim>\<open>parser_create\<close> and \<^verbatim>\<open>parser_parse\<close>
  (\<open>None\<close> when the call does not return; otherwise the value of \<^verbatim>\<open>has_error\<close> after
  it and the tree), \<open>generate\<close> for opening the output file and
  \<^verbatim>\<open>compiler_compile\<close> (\<open>False\<close> when \<^verbatim>\<open>fopen\<close> fails). The result is the exit
  code with the events, or \<open>None\<close> when \<^verbatim>\<open>main\<close> does not return.
\<close>

datatype event = Ev_lexer_tokenize | Ev_parser_parse | Ev_compiler_compile

definition so_lang_main ::
  "(Token list \<Rightarrow> (bool \<times> 'ast) option) \<Rightarrow> ('ast \<Rightarrow> bool) \<Rightarrow> string \<Rightarrow> (int \<times> event list) option"
where
  "so_lang_main parse generate src =
     (let lexer = lexer_tokenize (lexer_create src) in
      if has_error lexer then Some (1, [Ev_lexer_tokenize])
      else (case parse (tokens lexer) of
              None \<Rightarrow> None
            | Some (err, ast) \<Rightarrow>
                if err then Some (1, [Ev_lexer_tokenize, Ev_parser_parse])
                else if \<not> generate ast then Some (1, [Ev_lexer_tokenize, Ev_parser_parse])
                else Some (0, [Ev_lexer_tokenize, Ev_parser_parse, Ev_compiler_compile])))"

section \<open>Properties of the lexer of so\_lang.c\<close>

lemma lexer_add_token_tokens:
  "tokens (lexer_add_token L ty v) =
     (if length (tokens L) \<ge> MAX_TOKENS then tokens L
      else tokens L @ [\<lparr>ttype = ty, tvalue = take (MAX_TOKEN_LEN - 1) (c_string v),
                         tline = line L, tcolumn = column L\<rparr>])"
  by (simp add: lexer_add_token_def)

lemma lexer_tokenize_loop_at_end: "lexer_current_char (lexer_tokenize_loop L) = NUL"
proof (induction L rule: lexer_tokenize_loop.induct)
  case (1 L)
  then show ?case
    by (subst lexer_tokenize_loop.simps) simp
qed

lemma lexer_tokenize_loop_source [simp]: "source (lexer_tokenize_loop L) = source L"
proof (induction L rule: lexer_tokenize_loop.induct)
  case (1 L)
  then show ?case
    by (subst lexer_tokenize_loop.simps) simp
qed

lemma newline_run:
  assumes "\<forall>i. pos L \<le> i \<and> i < length (source L) \<longrightarrow> source L ! i = CHR 0x0A"
    and "length (tokens L) + (length (source L) - pos L) \<le> MAX_TOKENS"
  shows "map ttype (tokens (lexer_tokenize_loop L)) =
         map ttype (tokens L) @ replicate (length (source L) - pos L) TOKEN_NEWLINE"
  using assms
proof (induction L rule: lexer_tokenize_loop.induct)
  case (1 L)
  show ?case
  proof (cases "pos L < length (source L)")
    case True
    let ?B = "lexer_tokenize_body L"
    have c: "lexer_current_char L = CHR 0x0A"
      using True "1.prems"(1) by (simp add: lexer_current_char_def)
    then have nn: "lexer_current_char L \<noteq> NUL"
      using char_class_NUL(7) by metis
    have body: "?B = lexer_advance (lexer_add_token L TOKEN_NEWLINE [CHR 0x0A])"
      by (simp add: lexer_tokenize_body_def c Let_def)
    have lt: "\<not> length (tokens L) \<ge> MAX_TOKENS"
      using True "1.prems"(2) by simp
    have tk: "map ttype (tokens ?B) = map ttype (tokens L) @ [TOKEN_NEWLINE]"
      using lt by (simp add: body lexer_add_token_tokens)
    have ps: "pos ?B = pos L + 1" "source ?B = source L"
      by (simp_all add: body)
    have "map ttype (tokens (lexer_tokenize_loop ?B)) =
          map ttype (tokens ?B) @ replicate (length (source ?B) - pos ?B) TOKEN_NEWLINE"
    proof (rule "1.IH" [OF nn])
      show "\<forall>i. pos ?B \<le> i \<and> i < length (source ?B) \<longrightarrow> source ?B ! i = CHR 0x0A"
        using "1.prems"(1) by (simp add: ps)
      have "length (tokens ?B) = length (tokens L) + 1"
        using lt by (simp add: body lexer_add_token_tokens)
      then show "length (tokens ?B) + (length (source ?B) - pos ?B) \<le> MAX_TOKENS"
        using True "1.prems"(2) by (simp add: ps)
    qed
    moreover have "lexer_tokenize_loop L = lexer_tokenize_loop ?B"
      using nn by (subst lexer_tokenize_loop.simps) simp
    moreover have "replicate (length (source L) - pos L) TOKEN_NEWLINE =
                   TOKEN_NEWLINE # replicate (length (source L) - (pos L + 1)) TOKEN_NEWLINE"
      using True by (metis Suc_diff_Suc Suc_eq_plus1 diff_Suc_eq_diff_pred replicate_Suc
                      Suc_pred zero_less_diff)
    ultimately show ?thesis
      by (simp add: tk ps)
  next
    case False
    then have "lexer_current_char L = NUL"
      by (simp add: lexer_current_char_def)
    then have "lexer_tokenize_loop L = L"
      by (subst lexer_tokenize_loop.simps) simp
    with False show ?thesis
      by simp
  qed
qed

text \<open>
  C7 (as amended). The token sequence is a list, so it is finite. When the scanning loop
  stored fewer than \<open>MAX_TOKENS\<close> tokens, \<^verbatim>\<open>lexer_tokenize\<close> appends the end-of-input
  token, and that token is the last one, with an empty lexeme. When the loop filled the
  array, the final \<^verbatim>\<open>lexer_add_token\<close> stores nothing and sets the error flag: the
  sequence is then the scanned tokens alone, with no end-of-input token appended.
\<close>

theorem lexer_tokenize_last_token_eof:
  "(length (tokens (lexer_tokenize_loop (lexer_create src))) < MAX_TOKENS \<longrightarrow>
      tokens (lexer_tokenize (lexer_create src)) \<noteq> []
      \<and> ttype (last (tokens (lexer_tokenize (lexer_create src)))) = TOKEN_EOF
      \<and> tvalue (last (tokens (lexer_tokenize (lexer_create src)))) = [])
   \<and> (MAX_TOKENS \<le> length (tokens (lexer_tokenize_loop (lexer_create src))) \<longrightarrow>
      tokens (lexer_tokenize (lexer_create src)) = tokens (lexer_tokenize_loop (lexer_create src))
      \<and> has_error (lexer_tokenize (lexer_create src)))"
  by (simp add: lexer_tokenize_def lexer_add_token_tokens c_string_def lexer_add_token_def)

theorem lexer_tokenize_last_token_eof_witness:
  "length (tokens (lexer_tokenize_loop (lexer_create ''let x = 42''))) < MAX_TOKENS
   \<and> tokens (lexer_tokenize (lexer_create ''let x = 42'')) \<noteq> []
   \<and> ttype (last (tokens (lexer_tokenize (lexer_create ''let x = 42'')))) = TOKEN_EOF
   \<and> tvalue (last (tokens (lexer_tokenize (lexer_create ''let x = 42'')))) = []
   \<and> MAX_TOKENS \<le> length (tokens (lexer_tokenize_loop (lexer_create (replicate 1000 (CHR 0x0A)))))
   \<and> has_error (lexer_tokenize (lexer_create (replicate 1000 (CHR 0x0A))))"
proof -
  have h: "length (tokens (lexer_tokenize_loop (lexer_create ''let x = 42''))) < MAX_TOKENS"
    by code_simp
  let ?L = "lexer_create (replicate 1000 (CHR 0x0A))"
  have "map ttype (tokens (lexer_tokenize_loop ?L)) =
        map ttype (tokens ?L) @ replicate (length (source ?L) - pos ?L) TOKEN_NEWLINE"
    by (rule newline_run) (simp_all add: lexer_create_def MAX_TOKENS_def)
  then have "map ttype (tokens (lexer_tokenize_loop ?L)) = replicate 1000 TOKEN_NEWLINE"
    by (simp add: lexer_create_def)
  then have "length (tokens (lexer_tokenize_loop ?L)) = 1000"
    by (metis length_map length_replicate)
  then have k: "MAX_TOKENS \<le> length (tokens (lexer_tokenize_loop ?L))"
    by (simp add: MAX_TOKENS_def)
  from h k lexer_tokenize_last_token_eof [of "''let x = 42''"]
    lexer_tokenize_last_token_eof [of "replicate 1000 (CHR 0x0A)"]
  show ?thesis
    by blast
qed

text \<open>
  C7 (as stated) fails when the token count reaches the capacity: on a source of 1000
  newlines the array is full after the loop, the end-of-input token is dropped, and the
  last token is a newline token.
\<close>

theorem lexer_tokenize_capacity_counterexample:
  "ttype (last (tokens (lexer_tokenize (lexer_create (replicate 1000 (CHR 0x0A))))))
     \<noteq> TOKEN_EOF"
proof -
  let ?L = "lexer_create (replicate 1000 (CHR 0x0A))"
  have "map ttype (tokens (lexer_tokenize_loop ?L)) =
        map ttype (tokens ?L) @ replicate (length (source ?L) - pos ?L) TOKEN_NEWLINE"
    by (rule newline_run) (simp_all add: lexer_create_def MAX_TOKENS_def)
  then have m: "map ttype (tokens (lexer_tokenize_loop ?L)) = replicate 1000 TOKEN_NEWLINE"
    by (simp add: lexer_create_def)
  have len: "length (tokens (lexer_tokenize_loop ?L)) = 1000"
    using m by (metis length_map length_replicate)
  then have ne: "tokens (lexer_tokenize_loop ?L) \<noteq> []"
    by auto
  have same: "tokens (lexer_tokenize ?L) = tokens (lexer_tokenize_loop ?L)"
    by (simp add: lexer_tokenize_def lexer_add_token_tokens len MAX_TOKENS_def)
  have "ttype (last (tokens (lexer_tokenize_loop ?L))) =
        last (map ttype (tokens (lexer_tokenize_loop ?L)))"
    using ne by (simp add: last_map)
  also have "\<dots> = TOKEN_NEWLINE"
    by (simp add: m)
  finally show ?thesis
    by (simp add: same)
qed

text \<open>
  C8. If the error flag is set after scanning (an unexpected character or a full token
  array), the scanning loop has nevertheless run to the end of the source, and
  \<^verbatim>\<open>main\<close> returns 1 having called the lexer only: neither the parser nor the
  emitter is called.
\<close>

theorem lexical_error_stops_pipeline:
  assumes "has_error (lexer_tokenize (lexer_create src))"
  shows "lexer_current_char (lexer_tokenize (lexer_create src)) = NUL
       \<and> (NUL \<notin> set src \<longrightarrow> length src \<le> pos (lexer_tokenize (lexer_create src)))
       \<and> so_lang_main parse generate src = Some (1, [Ev_lexer_tokenize])"
proof -
  let ?L = "lexer_tokenize (lexer_create src)"
  have c: "lexer_current_char ?L = NUL"
    by (simp add: lexer_tokenize_def lexer_tokenize_loop_at_end)
  have s: "source ?L = src"
    by (simp add: lexer_tokenize_def lexer_create_def)
  have "NUL \<notin> set src \<longrightarrow> length src \<le> pos ?L"
  proof
    assume n: "NUL \<notin> set src"
    show "length src \<le> pos ?L"
    proof (rule ccontr)
      assume "\<not> length src \<le> pos ?L"
      then have lt: "pos ?L < length src"
        by simp
      then have "lexer_current_char ?L = src ! pos ?L"
        by (simp add: lexer_current_char_def s)
      with c lt n show False
        by (metis nth_mem)
    qed
  qed
  with c assms show ?thesis
    by (simp add: so_lang_main_def Let_def)
qed

theorem lexical_error_stops_pipeline_witness:
  "has_error (lexer_tokenize (lexer_create ''let x = #''))
   \<and> lexer_current_char (lexer_tokenize (lexer_create ''let x = #'')) = NUL
   \<and> NUL \<notin> set ''let x = #''
   \<and> length ''let x = #'' \<le> pos (lexer_tokenize (lexer_create ''let x = #''))
   \<and> so_lang_main (\<lambda>ts. Some (False, ())) (\<lambda>a. True) ''let x = #''
       = Some (1, [Ev_lexer_tokenize])"
proof -
  have h: "has_error (lexer_tokenize (lexer_create ''let x = #''))"
    by code_simp
  have n: "NUL \<notin> set ''let x = #''"
    by (simp add: NUL_def)
  show ?thesis
    using h n lexical_error_stops_pipeline [OF h, of "\<lambda>ts. Some (False, ())" "\<lambda>a. True"]
    by simp
qed


section \<open>The syntax tree (so\_lang.h, so\_lang\_solana.h)\<close>

text \<open>
  \<^verbatim>\<open>NodeType\<close> with the kinds of \<^verbatim>\<open>SolanaNodeType\<close>. The chain emitter casts
  \<^verbatim>\<open>SolanaASTNode*\<close> to \<^verbatim>\<open>ASTNode*\<close> and back, so one tree type models both
  structs: the fields of \<^verbatim>\<open>ASTNode\<close>, and in \<open>sol\<close> the chain fields that the
  emitters read. A \<^verbatim>\<open>NULL\<close> child pointer is \<open>None\<close>; \<open>children\<close> is the array
  \<^verbatim>\<open>children[0 .. child_count - 1]\<close>.
\<close>

datatype NodeType =
    NODE_PROGRAM | NODE_VAR_DECL | NODE_FUNC_DECL | NODE_IF_STMT | NODE_RETURN_STMT
  | NODE_PRINT_STMT | NODE_BINARY_OP | NODE_IDENTIFIER | NODE_NUMBER | NODE_STRING
  | NODE_FUNC_CALL
  | NODE_PROGRAM_DECL | NODE_INSTRUCTION_DECL | NODE_ACCOUNT_DECL | NODE_STATE_DECL
  | NODE_ACCOUNT_CONSTRAINT | NODE_PDA_DERIVATION | NODE_TRANSFER_STMT | NODE_INVOKE_STMT
  | NODE_REQUIRE_STMT | NODE_ERROR_DECL | NODE_EVENT_DECL | NODE_EMIT_STMT
  | NODE_ACCOUNT_ACCESS | NODE_INSTRUCTION_HANDLER | NODE_ACCOUNT_VALIDATION
  | NODE_SOLANA_TYPE | NODE_ANCHOR_ATTRIBUTE | NODE_SEEDS_EXPR | NODE_BUMP_EXPR

datatype SolanaDataType =
    SOLANA_TYPE_PUBKEY | SOLANA_TYPE_LAMPORTS | SOLANA_TYPE_U64 | SOLANA_TYPE_U32
  | SOLANA_TYPE_U8 | SOLANA_TYPE_STRING | SOLANA_TYPE_BOOL | SOLANA_TYPE_ACCOUNT_INFO
  | SOLANA_TYPE_INSTRUCTION | SOLANA_TYPE_PROGRAM_ID

record SolanaFields =
  solana_type :: SolanaDataType
  account_name :: "string option"
  instruction_name :: "string option"
  program_id :: "string option"
  is_signer :: bool
  is_writable :: bool
  is_init :: bool

datatype ASTNode =
  ASTNode (ntype: NodeType) (nvalue: string)
          (left: "ASTNode option") (right: "ASTNode option") (condition: "ASTNode option")
          (then_branch: "ASTNode option") (else_branch: "ASTNode option")
          (children: "ASTNode list") (sol: SolanaFields)

definition sol_default :: SolanaFields where
  "sol_default = \<lparr>solana_type = SOLANA_TYPE_U64, account_name = None, instruction_name = None,
                   program_id = None, is_signer = False, is_writable = False, is_init = False\<rparr>"

definition ast_create_node :: "NodeType \<Rightarrow> ASTNode" where
  "ast_create_node t = ASTNode t [] None None None None None [] sol_default"

section \<open>The program classifier (detect\_solana\_program of so\_lang.c)\<close>

text \<open>
  The file-level variables \<^verbatim>\<open>detected_solana\<close> and \<^verbatim>\<open>detected_program_name\<close> that
  the classifier writes.
\<close>

record DetectGlobals =
  detected_solana :: bool
  detected_program_name :: "string option"

fun detect_solana_program :: "ASTNode \<Rightarrow> DetectGlobals \<Rightarrow> bool \<times> DetectGlobals"
  and detect_children :: "ASTNode list \<Rightarrow> DetectGlobals \<Rightarrow> bool \<times> DetectGlobals" where
  "detect_solana_program (ASTNode t v l r c tb eb ch s) g =
     (if t = NODE_PROGRAM_DECL
      then (True, g\<lparr>detected_solana := True, detected_program_name := Some v\<rparr>)
      else if t = NODE_INSTRUCTION_DECL \<or> t = NODE_ACCOUNT_CONSTRAINT \<or> t = NODE_TRANSFER_STMT
              \<or> t = NODE_REQUIRE_STMT \<or> t = NODE_EMIT_STMT
      then (True, g\<lparr>detected_solana := True\<rparr>)
      else detect_children ch g)"
| "detect_children [] g = (False, g)"
| "detect_children (x # xs) g =
     (case detect_solana_program x g of
        (True, g') \<Rightarrow> (True, g')
      | (False, g') \<Rightarrow> detect_children xs g')"

section \<open>The generic emitter (so\_lang\_enhanced.c)\<close>

lemma size_children: "c \<in> set (children n) \<Longrightarrow> size c < size n"
  by (cases n) (auto simp: less_Suc_eq_le dest!: size_list_estimation' [where f = size and y = "size c"])

lemma size_left: "left n = Some c \<Longrightarrow> size c < size n"
  by (cases n) auto

lemma size_right: "right n = Some c \<Longrightarrow> size c < size n"
  by (cases n) auto
lemma size_condition: "condition n = Some c \<Longrightarrow> size c < size n"
  by (cases n) auto
lemma size_then_branch: "then_branch n = Some c \<Longrightarrow> size c < size n"
  by (cases n) auto
lemma size_else_branch: "else_branch n = Some c \<Longrightarrow> size c < size n"
  by (cases n) auto

lemma size_left_children: "left n = Some b \<Longrightarrow> c \<in> set (children b) \<Longrightarrow> size c < size n"
  using size_left size_children by (metis less_trans)
lemma size_then_children:
  "then_branch n = Some b \<Longrightarrow> c \<in> set (children b) \<Longrightarrow> size c < size n"
  using size_then_branch size_children by (metis less_trans)
lemma size_else_children:
  "else_branch n = Some b \<Longrightarrow> c \<in> set (children b) \<Longrightarrow> size c < size n"
  using size_else_branch size_children by (metis less_trans)

definition NL :: string where "NL = [CHR 0x0A]"
definition DQ :: string where "DQ = [CHR 0x22]"
definition BS :: string where "BS = [CHR 0x5C]"

text \<open>
  The \<^verbatim>\<open>Compiler\<close> struct: \<open>output_text\<close> is the text written so far to the
  \<^verbatim>\<open>FILE* output\<close>. \<open>in_function\<close> is the file-level flag
  \<^verbatim>\<open>static bool in_function\<close>, threaded with the compiler state.
\<close>

record Compiler =
  output_text :: string
  to_rust :: bool
  in_function :: bool

definition fprintf :: "Compiler \<Rightarrow> string \<Rightarrow> Compiler" where
  "fprintf c s = c\<lparr>output_text := output_text c @ s\<rparr>"

definition compiler_emit_c_headers :: "Compiler \<Rightarrow> Compiler" where
  "compiler_emit_c_headers c =
     fprintf (fprintf (fprintf c (''#include <stdio.h>'' @ NL))
                (''#include <stdlib.h>'' @ NL)) (''#include <string.h>'' @ NL @ NL)"

function compiler_compile_function :: "ASTNode \<Rightarrow> Compiler \<Rightarrow> Compiler"
  and compiler_compile_node :: "ASTNode \<Rightarrow> Compiler \<Rightarrow> Compiler" where
  "compiler_compile_function func c =
     (let c1 = (if to_rust c then fprintf c (''fn '' @ nvalue func @ ''() -> i32 {'' @ NL)
                else fprintf c (''int '' @ nvalue func @ ''() {'' @ NL));
          c2 = (case left func of
                  None \<Rightarrow> c1
                | Some body \<Rightarrow>
                    (fold compiler_compile_node (children body) (c1\<lparr>in_function := True\<rparr>))
                      \<lparr>in_function := False\<rparr>);
          c3 = (if to_rust c2 then fprintf c2 (''    0'' @ NL)
                else fprintf c2 (''    return 0;'' @ NL))
      in fprintf c3 (''}'' @ NL @ NL))"
| "compiler_compile_node node c =
     (if ntype node = NODE_PROGRAM then
        (let c1 = (if \<not> in_function c then
                     (if to_rust c then
                        fprintf (fold (\<lambda>ch s. if ntype ch = NODE_FUNC_DECL
                                               then compiler_compile_function ch s else s)
                                   (children node) c)
                          (''fn main() {'' @ NL)
                      else
                        fprintf (fold (\<lambda>ch s. if ntype ch = NODE_FUNC_DECL
                                               then compiler_compile_function ch s else s)
                                   (children node) (compiler_emit_c_headers c))
                          (''int main() {'' @ NL))
                   else c);
             c2 = fold (\<lambda>ch s. if ntype ch \<noteq> NODE_FUNC_DECL
                                 then compiler_compile_node ch s else s)
                    (children node) c1
         in if \<not> in_function c2 then
              (if to_rust c2 then fprintf c2 (''}'' @ NL)
               else fprintf c2 (''    return 0;'' @ NL @ ''}'' @ NL))
            else c2)
      else if ntype node = NODE_FUNC_DECL then c
      else if ntype node = NODE_VAR_DECL then
        (let c1 = (if to_rust c then fprintf c (''    let '' @ nvalue node @ '' = '')
                   else fprintf c (''    int '' @ nvalue node @ '' = ''));
             c2 = (case right node of
                     Some r \<Rightarrow> compiler_compile_node r c1
                   | None \<Rightarrow> fprintf c1 ''0'')
         in fprintf c2 ('';'' @ NL))
      else if ntype node = NODE_PRINT_STMT then
        (let c1 = (if to_rust c then fprintf c (''    println!('' @ DQ @ ''{}'' @ DQ)
                   else fprintf c (''    printf('' @ DQ @ ''%d'' @ BS @ ''n'' @ DQ @ '', ''));
             c2 = (case left node of
                     Some l \<Rightarrow>
                       compiler_compile_node l (if to_rust c1 then fprintf c1 '', '' else c1)
                   | None \<Rightarrow> c1)
         in fprintf c2 ('');'' @ NL))
      else if ntype node = NODE_IF_STMT then
        (let c1 = (if to_rust c then fprintf c ''    if '' else fprintf c ''    if ('');
             c2 = (case condition node of
                     Some e \<Rightarrow> compiler_compile_node e c1
                   | None \<Rightarrow> c1);
             c3 = (if \<not> to_rust c2 then fprintf c2 '')'' else c2);
             c4 = fprintf c3 ('' {'' @ NL);
             c5 = (case then_branch node of
                     Some tb \<Rightarrow>
                       fold (\<lambda>ch s. compiler_compile_node ch (fprintf s ''    ''))
                         (children tb) c4
                   | None \<Rightarrow> c4);
             c6 = fprintf c5 ''    }'';
             c7 = (case else_branch node of
                     Some eb \<Rightarrow>
                       (let d1 = fprintf c6 ('' else {'' @ NL);
                            d2 = (if ntype eb = NODE_IF_STMT
                                  then compiler_compile_node eb (fprintf d1 ''    '')
                                  else fold (\<lambda>ch s. compiler_compile_node ch (fprintf s ''    ''))
                                         (children eb) d1)
                        in fprintf d2 ''    }'')
                   | None \<Rightarrow> c6)
         in fprintf c7 NL)
      else if ntype node = NODE_RETURN_STMT then
        (let c1 = (if to_rust c then fprintf c ''    return '' else fprintf c ''    return '');
             c2 = (case left node of
                     Some l \<Rightarrow> compiler_compile_node l c1
                   | None \<Rightarrow> fprintf c1 ''0'')
         in fprintf c2 ('';'' @ NL))
      else if ntype node = NODE_BINARY_OP then
        (let c1 = (case left node of Some l \<Rightarrow> compiler_compile_node l c | None \<Rightarrow> c);
             c2 = fprintf c1 ('' '' @ nvalue node @ '' '')
         in (case right node of Some r \<Rightarrow> compiler_compile_node r c2 | None \<Rightarrow> c2))
      else if ntype node = NODE_NUMBER then fprintf c (nvalue node)
      else if ntype node = NODE_STRING then
        (if to_rust c then fprintf c (DQ @ nvalue node @ DQ)
         else fprintf c (DQ @ nvalue node @ DQ))
      else if ntype node = NODE_IDENTIFIER then fprintf c (nvalue node)
      else if ntype node = NODE_FUNC_CALL then fprintf c (nvalue node @ ''()'')
      else c)"
  by pat_completeness auto
termination
  by (relation "measure (\<lambda>x. case x of Inl (n, c) \<Rightarrow> size n | Inr (n, c) \<Rightarrow> size n)")
     (auto simp: size_children size_left size_right size_condition size_then_branch
        size_else_branch size_left_children size_then_children size_else_children)


declare compiler_compile_function.simps [simp del] compiler_compile_node.simps [simp del]

section \<open>Properties of the generic emitter\<close>

text \<open>
  The emitter only appends to the output and never reads it: running it after a prefix
  \<open>p\<close> was written gives the same state with \<open>p\<close> in front (\<open>frame_ok\<close>, which
  also says that \<open>to_rust\<close> and \<open>in_function\<close> are left as they were; \<open>func_ok\<close>
  is the same for \<^verbatim>\<open>compiler_compile_function\<close>, which leaves \<open>in_function\<close> false
  when it was false).
\<close>

definition prepend :: "string \<Rightarrow> Compiler \<Rightarrow> Compiler" where
  "prepend p c = c\<lparr>output_text := p @ output_text c\<rparr>"

lemma prepend_fields [simp]:
  "to_rust (prepend p c) = to_rust c" "in_function (prepend p c) = in_function c"
  "output_text (prepend p c) = p @ output_text c"
  by (simp_all add: prepend_def)

lemma fprintf_fields [simp]:
  "to_rust (fprintf c s) = to_rust c" "in_function (fprintf c s) = in_function c"
  "output_text (fprintf c s) = output_text c @ s"
  by (simp_all add: fprintf_def)

lemma fprintf_prepend [simp]: "fprintf (prepend p c) s = prepend p (fprintf c s)"
  by (simp add: fprintf_def prepend_def)

lemma headers_prepend [simp]:
  "compiler_emit_c_headers (prepend p c) = prepend p (compiler_emit_c_headers c)"
  by (simp add: compiler_emit_c_headers_def)

lemma headers_fields [simp]:
  "to_rust (compiler_emit_c_headers c) = to_rust c"
  "in_function (compiler_emit_c_headers c) = in_function c"
  by (simp_all add: compiler_emit_c_headers_def)

lemma in_function_update_prepend [simp]:
  "(prepend p c)\<lparr>in_function := b\<rparr> = prepend p (c\<lparr>in_function := b\<rparr>)"
  by (simp add: prepend_def)










text \<open>
  \<^verbatim>\<open>compiler_create\<close> on a new output; \<open>in_function\<close> starts with the value of its
  initialiser, \<^verbatim>\<open>false\<close>. \<open>statement_text\<close> is the text that such a compiler
  writes for one node.
\<close>

definition compiler_create :: "bool \<Rightarrow> Compiler" where
  "compiler_create r = \<lparr>output_text = [], to_rust = r, in_function = False\<rparr>"

definition compiler_compile :: "ASTNode \<Rightarrow> Compiler \<Rightarrow> Compiler" where
  "compiler_compile ast c = compiler_compile_node ast c"

definition statement_text :: "bool \<Rightarrow> ASTNode \<Rightarrow> string" where
  "statement_text r n = output_text (compiler_compile_node n (compiler_create r))"

text \<open>
  The text of a function and of a statement as a function of the tree alone, following
  the description of the emitter: \<open>spec_function_text r f\<close> is the header of \<open>f\<close>,
  the statements of its body, the fallback return of zero and the closing brace;
  \<open>spec_statement_text r inner n\<close> is the text of the node \<open>n\<close> for C
  (\<open>r = False\<close>) or Rust (\<open>r = True\<close>), inside a function body (\<open>inner\<close>) or
  not. A program node outside a function body is the hoist pass followed by the entry
  pass; a function declaration met as a statement is nothing. The emitter is compared
  with these two functions in \<open>compile_refines\<close>.
\<close>

function spec_function_text :: "bool \<Rightarrow> ASTNode \<Rightarrow> string"
  and spec_statement_text :: "bool \<Rightarrow> bool \<Rightarrow> ASTNode \<Rightarrow> string" where
  "spec_function_text r f =
     (if r then ''fn '' @ nvalue f @ ''() -> i32 {'' @ NL
      else ''int '' @ nvalue f @ ''() {'' @ NL)
     @ (case left f of
          None \<Rightarrow> []
        | Some body \<Rightarrow> concat (map (spec_statement_text r True) (children body)))
     @ (if r then ''    0'' @ NL else ''    return 0;'' @ NL)
     @ ''}'' @ NL @ NL"
| "spec_statement_text r inner n =
     (if ntype n = NODE_PROGRAM then
        (if inner then []
         else (if r then []
               else ''#include <stdio.h>'' @ NL @ ''#include <stdlib.h>'' @ NL
                    @ ''#include <string.h>'' @ NL @ NL)
              @ concat (map (spec_function_text r)
                          (filter (\<lambda>ch. ntype ch = NODE_FUNC_DECL) (children n)))
              @ (if r then ''fn main() {'' @ NL else ''int main() {'' @ NL))
        @ concat (map (spec_statement_text r inner)
                    (filter (\<lambda>ch. ntype ch \<noteq> NODE_FUNC_DECL) (children n)))
        @ (if inner then []
           else if r then ''}'' @ NL
           else ''    return 0;'' @ NL @ ''}'' @ NL)
      else if ntype n = NODE_FUNC_DECL then []
      else if ntype n = NODE_VAR_DECL then
        (if r then ''    let '' else ''    int '') @ nvalue n @ '' = ''
        @ (case right n of Some e \<Rightarrow> spec_statement_text r inner e | None \<Rightarrow> ''0'')
        @ '';'' @ NL
      else if ntype n = NODE_PRINT_STMT then
        (if r then ''    println!('' @ DQ @ ''{}'' @ DQ
         else ''    printf('' @ DQ @ ''%d'' @ BS @ ''n'' @ DQ @ '', '')
        @ (case left n of
             Some e \<Rightarrow> (if r then '', '' else []) @ spec_statement_text r inner e
           | None \<Rightarrow> [])
        @ '');'' @ NL
      else if ntype n = NODE_IF_STMT then
        (if r then ''    if '' else ''    if ('')
        @ (case condition n of Some e \<Rightarrow> spec_statement_text r inner e | None \<Rightarrow> [])
        @ (if r then [] else '')'') @ '' {'' @ NL
        @ (case then_branch n of
             Some tb \<Rightarrow> concat (map (\<lambda>ch. ''    '' @ spec_statement_text r inner ch) (children tb))
           | None \<Rightarrow> [])
        @ ''    }''
        @ (case else_branch n of
             Some eb \<Rightarrow>
               '' else {'' @ NL
               @ (if ntype eb = NODE_IF_STMT then ''    '' @ spec_statement_text r inner eb
                  else concat (map (\<lambda>ch. ''    '' @ spec_statement_text r inner ch) (children eb)))
               @ ''    }''
           | None \<Rightarrow> [])
        @ NL
      else if ntype n = NODE_RETURN_STMT then
        ''    return ''
        @ (case left n of Some e \<Rightarrow> spec_statement_text r inner e | None \<Rightarrow> ''0'')
        @ '';'' @ NL
      else if ntype n = NODE_BINARY_OP then
        (case left n of Some e \<Rightarrow> spec_statement_text r inner e | None \<Rightarrow> [])
        @ '' '' @ nvalue n @ '' ''
        @ (case right n of Some e \<Rightarrow> spec_statement_text r inner e | None \<Rightarrow> [])
      else if ntype n = NODE_NUMBER then nvalue n
      else if ntype n = NODE_STRING then DQ @ nvalue n @ DQ
      else if ntype n = NODE_IDENTIFIER then nvalue n
      else if ntype n = NODE_FUNC_CALL then nvalue n @ ''()''
      else [])"
  by pat_completeness auto
termination
  by (relation "measure (\<lambda>x. case x of Inl (r, n) \<Rightarrow> size n | Inr (r, i, n) \<Rightarrow> size n)")
     (auto simp: size_children size_left size_right size_condition size_then_branch
        size_else_branch size_left_children size_then_children size_else_children)

declare spec_function_text.simps [simp del] spec_statement_text.simps [simp del]

lemma fold_emit:
  assumes "\<And>x s. x \<in> set xs \<Longrightarrow> to_rust s = r \<Longrightarrow> in_function s = b \<Longrightarrow>
             f x s = s\<lparr>output_text := output_text s @ g x\<rparr>"
  shows "to_rust c = r \<Longrightarrow> in_function c = b \<Longrightarrow>
         fold f xs c = c\<lparr>output_text := output_text c @ concat (map g xs)\<rparr>"
  using assms
proof (induction xs arbitrary: c)
  case Nil
  then show ?case by simp
next
  case (Cons x xs)
  have "f x c = c\<lparr>output_text := output_text c @ g x\<rparr>"
    using Cons.prems by simp
  moreover have "fold f xs (c\<lparr>output_text := output_text c @ g x\<rparr>)
     = (c\<lparr>output_text := output_text c @ g x\<rparr>)\<lparr>output_text :=
          output_text (c\<lparr>output_text := output_text c @ g x\<rparr>) @ concat (map g xs)\<rparr>"
    by (rule Cons.IH) (use Cons.prems in simp_all)
  ultimately show ?case
    by simp
qed

lemma concat_map_filter_if:
  "concat (map (\<lambda>x. if P x then g x else []) xs) = concat (map g (filter P xs))"
  by (induction xs) simp_all

lemma compile_refines:
  "compiler_compile_function n c =
     c\<lparr>output_text := output_text c @ spec_function_text (to_rust c) n,
       in_function := (case left n of None \<Rightarrow> in_function c | Some b \<Rightarrow> False)\<rparr>
   \<and> compiler_compile_node n c =
     c\<lparr>output_text := output_text c @ spec_statement_text (to_rust c) (in_function c) n\<rparr>"
proof (induction n arbitrary: c rule: measure_induct_rule [of size])
  case (less n)
  have IHn: "compiler_compile_node m s =
      s\<lparr>output_text := output_text s @ spec_statement_text (to_rust s) (in_function s) m\<rparr>"
    if "size m < size n" for m s
    using less [OF that] by blast
  have IHf: "compiler_compile_function m s =
      s\<lparr>output_text := output_text s @ spec_function_text (to_rust s) m,
        in_function := (case left m of None \<Rightarrow> in_function s | Some b \<Rightarrow> False)\<rparr>"
    if "size m < size n" for m s
    using less [OF that] by blast
  have L: "compiler_compile_node m s =
      s\<lparr>output_text := output_text s @ spec_statement_text (to_rust s) (in_function s) m\<rparr>"
    if "left n = Some m" for m s
    using that IHn size_left by blast
  have R: "compiler_compile_node m s =
      s\<lparr>output_text := output_text s @ spec_statement_text (to_rust s) (in_function s) m\<rparr>"
    if "right n = Some m" for m s
    using that IHn size_right by blast
  have C: "compiler_compile_node m s =
      s\<lparr>output_text := output_text s @ spec_statement_text (to_rust s) (in_function s) m\<rparr>"
    if "condition n = Some m" for m s
    using that IHn size_condition by blast
  have E: "compiler_compile_node m s =
      s\<lparr>output_text := output_text s @ spec_statement_text (to_rust s) (in_function s) m\<rparr>"
    if "else_branch n = Some m" for m s
    using that IHn size_else_branch by blast
  have LC: "fold compiler_compile_node (children b) s =
      s\<lparr>output_text := output_text s
          @ concat (map (spec_statement_text (to_rust s) (in_function s)) (children b))\<rparr>"
    if "left n = Some b" for b s
    by (rule fold_emit [OF _ refl refl]) (use that IHn size_left_children in simp)
  have TC: "fold (\<lambda>ch s. compiler_compile_node ch (s\<lparr>output_text := output_text s @ ''    ''\<rparr>))
              (children b) s =
      s\<lparr>output_text := output_text s
          @ concat (map (\<lambda>ch. ''    '' @ spec_statement_text (to_rust s) (in_function s) ch)
                      (children b))\<rparr>"
    if "then_branch n = Some b" for b s
    by (rule fold_emit [OF _ refl refl])
       (use that IHn size_then_children in simp)
  have EC: "fold (\<lambda>ch s. compiler_compile_node ch (s\<lparr>output_text := output_text s @ ''    ''\<rparr>))
              (children b) s =
      s\<lparr>output_text := output_text s
          @ concat (map (\<lambda>ch. ''    '' @ spec_statement_text (to_rust s) (in_function s) ch)
                      (children b))\<rparr>"
    if "else_branch n = Some b" for b s
    by (rule fold_emit [OF _ refl refl])
       (use that IHn size_else_children in simp)
  have FC: "fold (\<lambda>ch s. if ntype ch = NODE_FUNC_DECL then compiler_compile_function ch s else s)
              (children n) s =
      s\<lparr>output_text := output_text s
          @ concat (map (spec_function_text (to_rust s))
                      (filter (\<lambda>ch. ntype ch = NODE_FUNC_DECL) (children n)))\<rparr>"
    if "\<not> in_function s" for s
  proof -
    have "fold (\<lambda>ch s. if ntype ch = NODE_FUNC_DECL then compiler_compile_function ch s else s)
              (children n) s =
      s\<lparr>output_text := output_text s
          @ concat (map (\<lambda>ch. if ntype ch = NODE_FUNC_DECL
                               then spec_function_text (to_rust s) ch else [])
                      (children n))\<rparr>"
      by (rule fold_emit [OF _ refl refl])
         (use that IHf size_children in \<open>auto split: option.splits\<close>)
    then show ?thesis
      by (simp only: concat_map_filter_if)
  qed
  have SC: "fold (\<lambda>ch s. if ntype ch \<noteq> NODE_FUNC_DECL then compiler_compile_node ch s else s)
              (children n) s =
      s\<lparr>output_text := output_text s
          @ concat (map (spec_statement_text (to_rust s) (in_function s))
                      (filter (\<lambda>ch. ntype ch \<noteq> NODE_FUNC_DECL) (children n)))\<rparr>" for s
  proof -
    have "fold (\<lambda>ch s. if ntype ch \<noteq> NODE_FUNC_DECL then compiler_compile_node ch s else s)
              (children n) s =
      s\<lparr>output_text := output_text s
          @ concat (map (\<lambda>ch. if ntype ch \<noteq> NODE_FUNC_DECL
                               then spec_statement_text (to_rust s) (in_function s) ch else [])
                      (children n))\<rparr>"
      by (rule fold_emit [OF _ refl refl]) (use IHn size_children in auto)
    then show ?thesis
      by (simp only: concat_map_filter_if)
  qed
  have func: "compiler_compile_function n c =
     c\<lparr>output_text := output_text c @ spec_function_text (to_rust c) n,
       in_function := (case left n of None \<Rightarrow> in_function c | Some b \<Rightarrow> False)\<rparr>"
    by (cases "left n")
       (simp_all add: compiler_compile_function.simps [of n] spec_function_text.simps [of _ n]
          Let_def LC fprintf_def)
  have node: "compiler_compile_node n c =
     c\<lparr>output_text := output_text c @ spec_statement_text (to_rust c) (in_function c) n\<rparr>"
  proof -
    consider "ntype n = NODE_PROGRAM" | "ntype n = NODE_IF_STMT"
      | "ntype n = NODE_VAR_DECL" | "ntype n = NODE_PRINT_STMT"
      | "ntype n = NODE_RETURN_STMT" | "ntype n = NODE_BINARY_OP"
      | "ntype n \<notin> {NODE_PROGRAM, NODE_IF_STMT, NODE_VAR_DECL, NODE_PRINT_STMT,
                     NODE_RETURN_STMT, NODE_BINARY_OP}"
      by auto
    then show ?thesis
    proof cases
      case 1
      then show ?thesis
        by (simp add: compiler_compile_node.simps [of n] spec_statement_text.simps [of _ _ n]
              Let_def FC SC fprintf_def compiler_emit_c_headers_def)
    next
      case 2
      show ?thesis
        by (cases "condition n"; cases "then_branch n"; cases "else_branch n")
           (simp_all add: 2 compiler_compile_node.simps [of n]
              spec_statement_text.simps [of _ _ n] Let_def C E TC EC fprintf_def)
    next
      case 3
      show ?thesis
        by (cases "right n")
           (simp_all add: 3 compiler_compile_node.simps [of n]
              spec_statement_text.simps [of _ _ n] Let_def R fprintf_def)
    next
      case 4
      show ?thesis
        by (cases "left n")
           (simp_all add: 4 compiler_compile_node.simps [of n]
              spec_statement_text.simps [of _ _ n] Let_def L fprintf_def)
    next
      case 5
      show ?thesis
        by (cases "left n")
           (simp_all add: 5 compiler_compile_node.simps [of n]
              spec_statement_text.simps [of _ _ n] Let_def L fprintf_def)
    next
      case 6
      show ?thesis
        by (cases "left n"; cases "right n")
           (simp_all add: 6 compiler_compile_node.simps [of n]
              spec_statement_text.simps [of _ _ n] Let_def L R fprintf_def)
    next
      case 7
      then show ?thesis
        by (simp add: compiler_compile_node.simps [of n] spec_statement_text.simps [of _ _ n]
              fprintf_def)
    qed
  qed
  from func node show ?case
    by blast
qed

text \<open>
  C3. For a tree whose root is a \<open>NODE_PROGRAM\<close>, compiled by a fresh compiler for C
  (\<open>r = False\<close>) or Rust (\<open>r = True\<close>), the output is: the C headers (C only);
  then, for every \<open>NODE_FUNC_DECL\<close> child in source order, its header, the statements
  of its body, the fallback return of zero (\<^verbatim>\<open>return 0;\<close> for C, \<^verbatim>\<open>0\<close> for Rust) and
  the closing brace; then the opening of the entry point; then the statement text of
  every other child in source order; then the closing of the entry point
  (\<^verbatim>\<open>return 0;\<close> and a brace for C, a brace for Rust).
\<close>

theorem generic_program_hoists_functions:
  assumes "ntype p = NODE_PROGRAM"
  shows "output_text (compiler_compile p (compiler_create r)) =
           (if r then [] else ''#include <stdio.h>'' @ NL @ ''#include <stdlib.h>'' @ NL
                              @ ''#include <string.h>'' @ NL @ NL)
           @ concat (map (\<lambda>f. (if r then ''fn '' @ nvalue f @ ''() -> i32 {'' @ NL
                                else ''int '' @ nvalue f @ ''() {'' @ NL)
                               @ concat (map (spec_statement_text r True)
                                           (case left f of None \<Rightarrow> [] | Some b \<Rightarrow> children b))
                               @ (if r then ''    0'' @ NL else ''    return 0;'' @ NL)
                               @ ''}'' @ NL @ NL)
                       (filter (\<lambda>ch. ntype ch = NODE_FUNC_DECL) (children p)))
           @ (if r then ''fn main() {'' @ NL else ''int main() {'' @ NL)
           @ concat (map (spec_statement_text r False)
                       (filter (\<lambda>ch. ntype ch \<noteq> NODE_FUNC_DECL) (children p)))
           @ (if r then ''}'' @ NL else ''    return 0;'' @ NL @ ''}'' @ NL)"
proof -
  have f: "spec_function_text r f =
             (if r then ''fn '' @ nvalue f @ ''() -> i32 {'' @ NL
              else ''int '' @ nvalue f @ ''() {'' @ NL)
             @ concat (map (spec_statement_text r True)
                         (case left f of None \<Rightarrow> [] | Some b \<Rightarrow> children b))
             @ (if r then ''    0'' @ NL else ''    return 0;'' @ NL)
             @ ''}'' @ NL @ NL" for f
    by (cases "left f") (simp_all add: spec_function_text.simps [of r f])
  have "output_text (compiler_compile p (compiler_create r)) = spec_statement_text r False p"
    by (simp add: compiler_compile_def compile_refines compiler_create_def)
  also have "\<dots> =
           (if r then [] else ''#include <stdio.h>'' @ NL @ ''#include <stdlib.h>'' @ NL
                              @ ''#include <string.h>'' @ NL @ NL)
           @ concat (map (spec_function_text r)
                       (filter (\<lambda>ch. ntype ch = NODE_FUNC_DECL) (children p)))
           @ (if r then ''fn main() {'' @ NL else ''int main() {'' @ NL)
           @ concat (map (spec_statement_text r False)
                       (filter (\<lambda>ch. ntype ch \<noteq> NODE_FUNC_DECL) (children p)))
           @ (if r then ''}'' @ NL else ''    return 0;'' @ NL @ ''}'' @ NL)"
    by (simp add: spec_statement_text.simps [of r False p] assms)
  finally show ?thesis
    by (simp only: f [abs_def])
qed

section \<open>Examples for the classifier and the generic emitter\<close>

text \<open>
  The tree of \<^verbatim>\<open>if x { instruction foo() { } }\<close>: a program whose only item is an
  if-statement with an instruction declaration in its then-branch.
\<close>

definition nested_instruction_ast :: ASTNode where
  "nested_instruction_ast =
     ASTNode NODE_PROGRAM [] None None None None None
       [ASTNode NODE_IF_STMT []
          None None
          (Some (ASTNode NODE_IDENTIFIER ''x'' None None None None None [] sol_default))
          (Some (ASTNode NODE_INSTRUCTION_DECL ''foo'' None None None None None [] sol_default))
          None [] sol_default]
       sol_default"

text \<open>
  C2. The classifier descends through \<^verbatim>\<open>children\<close> only, never through
  \<^verbatim>\<open>left\<close>, \<^verbatim>\<open>right\<close>, \<^verbatim>\<open>condition\<close>, \<^verbatim>\<open>then_branch\<close> or
  \<^verbatim>\<open>else_branch\<close>: on a tree with an instruction declaration under an if-statement
  branch it returns false and leaves \<^verbatim>\<open>detected_solana\<close> unset.
\<close>

theorem detect_solana_program_misses_nested_instruction:
  "detect_solana_program nested_instruction_ast
     \<lparr>detected_solana = False, detected_program_name = None\<rparr>
   = (False, \<lparr>detected_solana = False, detected_program_name = None\<rparr>)"
  by (simp add: nested_instruction_ast_def)

text \<open>
  The tree of \<^verbatim>\<open>fn f() { return 1 }\<close>, \<^verbatim>\<open>let x = 42\<close>, \<^verbatim>\<open>print(x)\<close>.
\<close>

definition example_function :: ASTNode where
  "example_function =
     ASTNode NODE_FUNC_DECL ''f''
       (Some (ASTNode NODE_PROGRAM [] None None None None None
                [ASTNode NODE_RETURN_STMT []
                   (Some (ASTNode NODE_NUMBER ''1'' None None None None None [] sol_default))
                   None None None None [] sol_default]
                sol_default))
       None None None None [] sol_default"

definition example_let :: ASTNode where
  "example_let =
     ASTNode NODE_VAR_DECL ''x'' None
       (Some (ASTNode NODE_NUMBER ''42'' None None None None None [] sol_default))
       None None None [] sol_default"

definition example_print :: ASTNode where
  "example_print =
     ASTNode NODE_PRINT_STMT []
       (Some (ASTNode NODE_IDENTIFIER ''x'' None None None None None [] sol_default))
       None None None None [] sol_default"

definition example_program :: ASTNode where
  "example_program =
     ASTNode NODE_PROGRAM [] None None None None None
       [example_let, example_function, example_print] sol_default"

theorem generic_program_hoists_functions_witness:
  "ntype example_program = NODE_PROGRAM
   \<and> output_text (compiler_compile example_program (compiler_create False)) =
       ''#include <stdio.h>'' @ NL @ ''#include <stdlib.h>'' @ NL @ ''#include <string.h>'' @ NL @ NL
       @ ''int f() {'' @ NL @ ''    return 1;'' @ NL @ ''    return 0;'' @ NL @ ''}'' @ NL @ NL
       @ ''int main() {'' @ NL
       @ ''    int x = 42;'' @ NL
       @ ''    printf('' @ DQ @ ''%d'' @ BS @ ''n'' @ DQ @ '', x);'' @ NL
       @ ''    return 0;'' @ NL @ ''}'' @ NL
   \<and> output_text (compiler_compile example_program (compiler_create True)) =
       ''fn f() -> i32 {'' @ NL @ ''    return 1;'' @ NL @ ''    0'' @ NL @ ''}'' @ NL @ NL
       @ ''fn main() {'' @ NL
       @ ''    let x = 42;'' @ NL
       @ ''    println!('' @ DQ @ ''{}'' @ DQ @ '', x);'' @ NL
       @ ''}'' @ NL"
proof -
  have h: "ntype example_program = NODE_PROGRAM"
    by (simp add: example_program_def)
  have k: "ntype example_let = NODE_VAR_DECL" "ntype example_function = NODE_FUNC_DECL"
    "ntype example_print = NODE_PRINT_STMT" "nvalue example_function = ''f''"
    by (simp_all add: example_let_def example_function_def example_print_def)
  have t: "spec_statement_text r i example_let
             = (if r then ''    let '' else ''    int '') @ ''x = 42;'' @ NL"
    "spec_statement_text r i example_print
             = (if r then ''    println!('' @ DQ @ ''{}'' @ DQ @ '', ''
                else ''    printf('' @ DQ @ ''%d'' @ BS @ ''n'' @ DQ @ '', '') @ ''x);'' @ NL"
    "concat (map (spec_statement_text r True)
       (case left example_function of None \<Rightarrow> [] | Some b \<Rightarrow> children b))
     = ''    return 1;'' @ NL" for r i
    by (simp_all add: example_let_def example_print_def example_function_def
          spec_statement_text.simps [of _ _ "ASTNode _ _ _ _ _ _ _ _ _"])
  from generic_program_hoists_functions [OF h, of False]
  have c: "output_text (compiler_compile example_program (compiler_create False)) =
       ''#include <stdio.h>'' @ NL @ ''#include <stdlib.h>'' @ NL @ ''#include <string.h>'' @ NL @ NL
       @ ''int f() {'' @ NL @ ''    return 1;'' @ NL @ ''    return 0;'' @ NL @ ''}'' @ NL @ NL
       @ ''int main() {'' @ NL
       @ ''    int x = 42;'' @ NL
       @ ''    printf('' @ DQ @ ''%d'' @ BS @ ''n'' @ DQ @ '', x);'' @ NL
       @ ''    return 0;'' @ NL @ ''}'' @ NL"
    by (simp add: example_program_def k t)
  from generic_program_hoists_functions [OF h, of True]
  have rs: "output_text (compiler_compile example_program (compiler_create True)) =
       ''fn f() -> i32 {'' @ NL @ ''    return 1;'' @ NL @ ''    0'' @ NL @ ''}'' @ NL @ NL
       @ ''fn main() {'' @ NL
       @ ''    let x = 42;'' @ NL
       @ ''    println!('' @ DQ @ ''{}'' @ DQ @ '', x);'' @ NL
       @ ''}'' @ NL"
    by (simp add: example_program_def k t)
  from h c rs show ?thesis
    by blast
qed


section \<open>The chain emitter (so\_lang\_solana.c)\<close>

text \<open>
  The \<^verbatim>\<open>SolanaCompiler\<close> struct: \<open>sc_output\<close> is the text written so far to
  \<^verbatim>\<open>FILE* output\<close>. The fields \<^verbatim>\<open>program_name\<close>, \<^verbatim>\<open>program_id\<close>,
  \<^verbatim>\<open>account_count\<close> and \<^verbatim>\<open>state_count\<close> are set by
  \<^verbatim>\<open>solana_compiler_create\<close> and never read or written by the emitter.
  \<open>instruction_count\<close> is a C \<^verbatim>\<open>int\<close> that only counts up from 0, one step per
  emitted handler.
\<close>

record SolanaCompiler =
  sc_output :: string
  use_anchor :: bool
  native_solana :: bool
  instruction_count :: nat

definition solana_compiler_create :: "bool \<Rightarrow> SolanaCompiler" where
  "solana_compiler_create a =
     \<lparr>sc_output = [], use_anchor = a, native_solana = (\<not> a), instruction_count = 0\<rparr>"

definition sc_fprintf :: "SolanaCompiler \<Rightarrow> string \<Rightarrow> SolanaCompiler" where
  "sc_fprintf c s = c\<lparr>sc_output := sc_output c @ s\<rparr>"

text \<open>\<^verbatim>\<open>%d\<close> of a non-negative number.\<close>

function decimal :: "nat \<Rightarrow> string" where
  "decimal n = (if n < 10 then [''0123456789'' ! n]
                else decimal (n div 10) @ [''0123456789'' ! (n mod 10)])"
  by pat_completeness auto
termination
  by (relation "measure id") auto

declare decimal.simps [simp del]

text \<open>
  \<^verbatim>\<open>%s\<close> of a \<^verbatim>\<open>char*\<close> field that may be \<^verbatim>\<open>NULL\<close>
  (\<^verbatim>\<open>instruction_name\<close> and \<^verbatim>\<open>account_name\<close> are set only when the parser saw a
  name): the C library prints \<^verbatim>\<open>(null)\<close>.
\<close>

definition str_arg :: "string option \<Rightarrow> string" where
  "str_arg s = (case s of Some t \<Rightarrow> t | None \<Rightarrow> ''(null)'')"


definition SQ :: string where "SQ = [CHR 0x27]"

definition emit_anchor_imports :: "SolanaCompiler \<Rightarrow> SolanaCompiler" where
  "emit_anchor_imports c =
     sc_fprintf (sc_fprintf (sc_fprintf (sc_fprintf c
       (''use anchor_lang::prelude::*;'' @ NL))
       (''use anchor_spl::token::{self, Token, TokenAccount, Mint};'' @ NL))
       (''use anchor_spl::associated_token::AssociatedToken;'' @ NL))
       NL"

definition emit_native_solana_imports :: "SolanaCompiler \<Rightarrow> SolanaCompiler" where
  "emit_native_solana_imports c =
     sc_fprintf (sc_fprintf (sc_fprintf (sc_fprintf (sc_fprintf (sc_fprintf (sc_fprintf
     (sc_fprintf (sc_fprintf (sc_fprintf (sc_fprintf c
       (''use solana_program::{'' @ NL))
       (''    account_info::{next_account_info, AccountInfo},'' @ NL))
       (''    entrypoint,'' @ NL))
       (''    entrypoint::ProgramResult,'' @ NL))
       (''    msg,'' @ NL))
       (''    program_error::ProgramError,'' @ NL))
       (''    pubkey::Pubkey,'' @ NL))
       (''    system_instruction,'' @ NL))
       (''    program::{invoke, invoke_signed},'' @ NL))
       (''};'' @ NL))
       NL"

definition emit_program_structure :: "ASTNode \<Rightarrow> SolanaCompiler \<Rightarrow> SolanaCompiler" where
  "emit_program_structure program c =
     (if use_anchor c then
        (let c1 = sc_fprintf c (''#[program]'' @ NL);
             c2 = sc_fprintf c1 (''pub mod '' @ nvalue program @ '' {'' @ NL);
             c3 = sc_fprintf c2 (''    use super::*;'' @ NL @ NL)
         in case program_id (sol program) of
              Some pid \<Rightarrow> sc_fprintf c3 (''    declare_id!('' @ DQ @ pid @ DQ @ '');'' @ NL @ NL)
            | None \<Rightarrow> c3)
      else
        (let c1 = sc_fprintf c (''entrypoint!(process_instruction);'' @ NL @ NL);
             c2 = (case program_id (sol program) of
                     Some pid \<Rightarrow> sc_fprintf c1 (''declare_id!('' @ DQ @ pid @ DQ @ '');'' @ NL @ NL)
                   | None \<Rightarrow> c1);
             c3 = sc_fprintf c2 (''pub fn process_instruction('' @ NL);
             c4 = sc_fprintf c3 (''    program_id: &Pubkey,'' @ NL);
             c5 = sc_fprintf c4 (''    accounts: &[AccountInfo],'' @ NL);
             c6 = sc_fprintf c5 (''    instruction_data: &[u8],'' @ NL)
         in sc_fprintf c6 ('') -> ProgramResult {'' @ NL)))"

definition emit_account_field :: "ASTNode \<Rightarrow> SolanaCompiler \<Rightarrow> SolanaCompiler" where
  "emit_account_field account c =
     (let c1 = sc_fprintf c ''    #[account('';
          c2 = (if is_signer (sol account) then sc_fprintf c1 ''signer, '' else c1);
          c3 = (if is_writable (sol account) then sc_fprintf c2 ''mut, '' else c2);
          c4 = (if is_init (sol account)
                then sc_fprintf c3 ''init, payer = payer, space = 8 + 32, '' else c3);
          c5 = sc_fprintf c4 ('')]'' @ NL);
          c6 = sc_fprintf c5 (''    pub '' @ str_arg (account_name (sol account))
                               @ '': Account<'' @ SQ @ ''info, '');
          c7 = (if solana_type (sol account) = SOLANA_TYPE_PUBKEY then sc_fprintf c6 ''Pubkey''
                else if solana_type (sol account) = SOLANA_TYPE_ACCOUNT_INFO
                then sc_fprintf c6 ''AccountInfo''
                else sc_fprintf c6 ''AccountInfo'')
      in sc_fprintf c7 (''>,'' @ NL))"

definition emit_account_validation :: "ASTNode \<Rightarrow> SolanaCompiler \<Rightarrow> SolanaCompiler" where
  "emit_account_validation accounts c =
     (if use_anchor c then
        (let c1 = sc_fprintf c (''#[derive(Accounts)]'' @ NL);
             c2 = sc_fprintf c1 (''pub struct '' @ str_arg (instruction_name (sol accounts))
                                  @ ''Context<'' @ SQ @ ''info> {'' @ NL);
             c3 = fold emit_account_field (children accounts) c2
         in sc_fprintf c3 (''}'' @ NL @ NL))
      else c)"

definition emit_state_field :: "ASTNode \<Rightarrow> SolanaCompiler \<Rightarrow> SolanaCompiler" where
  "emit_state_field field c =
     (let c1 = sc_fprintf c (''    pub '' @ nvalue field @ '': '');
          t = solana_type (sol field);
          c2 = (if t = SOLANA_TYPE_PUBKEY then sc_fprintf c1 ''Pubkey''
                else if t = SOLANA_TYPE_U64 then sc_fprintf c1 ''u64''
                else if t = SOLANA_TYPE_U32 then sc_fprintf c1 ''u32''
                else if t = SOLANA_TYPE_BOOL then sc_fprintf c1 ''bool''
                else if t = SOLANA_TYPE_STRING then sc_fprintf c1 ''String''
                else sc_fprintf c1 ''u64'')
      in sc_fprintf c2 ('','' @ NL))"

definition emit_state_structure :: "ASTNode \<Rightarrow> SolanaCompiler \<Rightarrow> SolanaCompiler" where
  "emit_state_structure state c =
     (let c1 = (if use_anchor c then sc_fprintf c (''#[account]'' @ NL) else c);
          c2 = sc_fprintf c1 (''#[derive(Clone, Debug, PartialEq)]'' @ NL);
          c3 = sc_fprintf c2 (''pub struct '' @ nvalue state @ '' {'' @ NL);
          c4 = fold emit_state_field (children state) c3
      in sc_fprintf c4 (''}'' @ NL @ NL))"

definition emit_transfer :: "SolanaCompiler \<Rightarrow> SolanaCompiler" where
  "emit_transfer c =
     (if use_anchor c then
        sc_fprintf c
          (''        token::transfer('' @ NL
           @ ''            CpiContext::new('' @ NL
           @ ''                ctx.accounts.token_program.to_account_info(),'' @ NL
           @ ''                token::Transfer {'' @ NL
           @ ''                    from: ctx.accounts.from.to_account_info(),'' @ NL
           @ ''                    to: ctx.accounts.to.to_account_info(),'' @ NL
           @ ''                    authority: ctx.accounts.authority.to_account_info(),'' @ NL
           @ ''                },'' @ NL
           @ ''            ),'' @ NL
           @ ''            amount,'' @ NL
           @ ''        )?;'' @ NL)
      else
        sc_fprintf c
          (''            let instruction = system_instruction::transfer('' @ NL
           @ ''                from.key,'' @ NL
           @ ''                to.key,'' @ NL
           @ ''                amount,'' @ NL
           @ ''            );'' @ NL
           @ ''            invoke(&instruction, &[from.clone(), to.clone()])?;'' @ NL))"

text \<open>
  \<^verbatim>\<open>emit_instruction_handler\<close> and \<^verbatim>\<open>solana_compiler_compile\<close>. The default
  branch of the latter calls \<^verbatim>\<open>compiler_compile_node\<close> of the generic compiler
  through casts of the compiler and of the node; the text that call writes for a node is
  the parameter \<open>generic\<close>.
\<close>

function emit_instruction_handler ::
    "(ASTNode \<Rightarrow> string) \<Rightarrow> ASTNode \<Rightarrow> SolanaCompiler \<Rightarrow> SolanaCompiler"
  and solana_compiler_compile ::
    "(ASTNode \<Rightarrow> string) \<Rightarrow> ASTNode \<Rightarrow> SolanaCompiler \<Rightarrow> SolanaCompiler" where
  "emit_instruction_handler generic instruction c =
     (let name = str_arg (instruction_name (sol instruction));
          c' = (if use_anchor c then
                  (let c1 = sc_fprintf c (''    pub fn '' @ name @ ''(ctx: Context<'' @ name
                                          @ ''Context>) -> Result<()> {'' @ NL);
                       c2 = (case left instruction of
                               Some body \<Rightarrow>
                                 solana_compiler_compile generic body
                                   (sc_fprintf c1 (''        // Generated instruction logic'' @ NL))
                             | None \<Rightarrow> c1);
                       c3 = sc_fprintf c2 (''        Ok(())'' @ NL)
                   in sc_fprintf c3 (''    }'' @ NL @ NL))
                else
                  (let c1 = sc_fprintf c (''    match instruction_data[0] {'' @ NL);
                       c2 = sc_fprintf c1 (''        '' @ decimal (instruction_count c1)
                                           @ '' => {'' @ NL);
                       c3 = sc_fprintf c2 (''            msg!('' @ DQ @ ''Executing '' @ name @ DQ
                                           @ '');'' @ NL);
                       c4 = (case left instruction of
                               Some body \<Rightarrow> solana_compiler_compile generic body c3
                             | None \<Rightarrow> c3);
                       c5 = sc_fprintf c4 (''        },'' @ NL)
                   in sc_fprintf c5 (''    }'' @ NL)))
      in c'\<lparr>instruction_count := instruction_count c' + 1\<rparr>)"
| "solana_compiler_compile generic ast c =
     (if ntype ast = NODE_PROGRAM_DECL then
        (let c1 = (if use_anchor c then emit_anchor_imports c else emit_native_solana_imports c);
             c2 = emit_program_structure ast c1;
             c3 = fold (solana_compiler_compile generic) (children ast) c2
         in if use_anchor c3 then sc_fprintf c3 (''}'' @ NL)
            else sc_fprintf (sc_fprintf c3 (''    Ok(())'' @ NL)) (''}'' @ NL))
      else if ntype ast = NODE_INSTRUCTION_DECL then emit_instruction_handler generic ast c
      else if ntype ast = NODE_ACCOUNT_DECL then emit_account_validation ast c
      else if ntype ast = NODE_STATE_DECL then emit_state_structure ast c
      else if ntype ast = NODE_TRANSFER_STMT then emit_transfer c
      else if ntype ast = NODE_REQUIRE_STMT then
        (if use_anchor c then
           (let c1 = sc_fprintf c ''        require!('';
                c2 = (case condition ast of
                        Some e \<Rightarrow> solana_compiler_compile generic e c1
                      | None \<Rightarrow> c1)
            in sc_fprintf c2 ('', ErrorCode::CustomError);'' @ NL))
         else
           (let c1 = sc_fprintf c ''            if !('';
                c2 = (case condition ast of
                        Some e \<Rightarrow> solana_compiler_compile generic e c1
                      | None \<Rightarrow> c1);
                c3 = sc_fprintf c2 ('') {'' @ NL);
                c4 = sc_fprintf c3 (''                return Err(ProgramError::InvalidArgument);'' @ NL)
            in sc_fprintf c4 (''            }'' @ NL)))
      else if ntype ast = NODE_PRINT_STMT then
        (let c1 = sc_fprintf c (''        msg!('' @ DQ);
             c2 = (if left ast \<noteq> None then sc_fprintf c1 (''Debug: {}'' @ DQ) else c1)
         in sc_fprintf c2 ('');'' @ NL))
      else sc_fprintf c (generic ast))"
  by pat_completeness auto
termination
  by (relation "measure (\<lambda>x. case x of Inl (g, n, c) \<Rightarrow> 2 * size n
                                       | Inr (g, n, c) \<Rightarrow> 2 * size n + 1)")
     (auto dest: size_children size_left size_condition)

declare emit_instruction_handler.simps [simp del] solana_compiler_compile.simps [simp del]


section \<open>Properties of the chain emitter\<close>

text \<open>
  The number of times \<^verbatim>\<open>emit_instruction_handler\<close> runs while a node is compiled:
  the chain emitter descends into the children of a program declaration, the body of an
  instruction declaration and the condition of a require statement.
\<close>

function instruction_handlers :: "ASTNode \<Rightarrow> nat" where
  "instruction_handlers n =
     (if ntype n = NODE_PROGRAM_DECL then sum_list (map instruction_handlers (children n))
      else if ntype n = NODE_INSTRUCTION_DECL then
        (case left n of Some b \<Rightarrow> instruction_handlers b | None \<Rightarrow> 0) + 1
      else if ntype n = NODE_REQUIRE_STMT then
        (case condition n of Some e \<Rightarrow> instruction_handlers e | None \<Rightarrow> 0)
      else 0)"
  by pat_completeness auto
termination
  by (relation "measure size") (auto simp: size_children size_left size_condition)

declare instruction_handlers.simps [simp del]

text \<open>
  \<open>sc_ok k f\<close>: the step \<open>f\<close> of the chain emitter only appends to the output, keeps
  \<open>use_anchor\<close> and advances the instruction counter by \<open>k\<close>.
\<close>

definition sc_prepend :: "string \<Rightarrow> SolanaCompiler \<Rightarrow> SolanaCompiler" where
  "sc_prepend p c = c\<lparr>sc_output := p @ sc_output c\<rparr>"

definition sc_ok :: "nat \<Rightarrow> (SolanaCompiler \<Rightarrow> SolanaCompiler) \<Rightarrow> bool" where
  "sc_ok k f \<longleftrightarrow>
     (\<forall>c p. f (sc_prepend p c) = sc_prepend p (f c))
     \<and> (\<forall>c. use_anchor (f c) = use_anchor c)
     \<and> (\<forall>c. instruction_count (f c) = instruction_count c + k)"

lemma sc_okD:
  assumes "sc_ok k f"
  shows "f (sc_prepend p c) = sc_prepend p (f c)" "use_anchor (f c) = use_anchor c"
    "instruction_count (f c) = instruction_count c + k"
  using assms by (simp_all add: sc_ok_def)

lemma sc_prepend_fields [simp]:
  "use_anchor (sc_prepend p c) = use_anchor c"
  "instruction_count (sc_prepend p c) = instruction_count c"
  "sc_output (sc_prepend p c) = p @ sc_output c"
  by (simp_all add: sc_prepend_def)

lemma sc_fprintf_fields [simp]:
  "use_anchor (sc_fprintf c s) = use_anchor c"
  "instruction_count (sc_fprintf c s) = instruction_count c"
  "sc_output (sc_fprintf c s) = sc_output c @ s"
  by (simp_all add: sc_fprintf_def)

lemma sc_fprintf_prepend [simp]: "sc_fprintf (sc_prepend p c) s = sc_prepend p (sc_fprintf c s)"
  by (simp add: sc_fprintf_def sc_prepend_def)

lemma sc_count_update_prepend [simp]:
  "(sc_prepend p c)\<lparr>instruction_count := k\<rparr> = sc_prepend p (c\<lparr>instruction_count := k\<rparr>)"
  by (simp add: sc_prepend_def)

lemma sc_ok_fold:
  assumes "\<And>x. x \<in> set xs \<Longrightarrow> sc_ok (h x) (f x)"
  shows "sc_ok (sum_list (map h xs)) (fold f xs)"
  using assms
proof (induction xs)
  case Nil
  then show ?case by (simp add: sc_ok_def)
next
  case (Cons x xs)
  then have "sc_ok (h x) (f x)" "sc_ok (sum_list (map h xs)) (fold f xs)"
    by simp_all
  then show ?case
    by (simp add: sc_ok_def)
qed

lemma sc_ok_fold0:
  assumes "\<And>x. x \<in> set xs \<Longrightarrow> sc_ok 0 (f x)"
  shows "sc_ok 0 (fold f xs)"
  using sc_ok_fold [of xs "\<lambda>x. 0" f] assms by simp

lemma emit_helpers_ok:
  "sc_ok 0 emit_anchor_imports" "sc_ok 0 emit_native_solana_imports"
  "sc_ok 0 (emit_program_structure n)" "sc_ok 0 (emit_account_field n)"
  "sc_ok 0 (emit_state_field n)" "sc_ok 0 emit_transfer"
  by (simp_all add: sc_ok_def emit_anchor_imports_def emit_native_solana_imports_def
        emit_program_structure_def emit_account_field_def emit_state_field_def
        emit_transfer_def Let_def split: option.splits)

lemma emit_account_validation_ok: "sc_ok 0 (emit_account_validation n)"
proof -
  have "sc_ok 0 (fold emit_account_field (children n))"
    by (rule sc_ok_fold0) (rule emit_helpers_ok)
  note r = sc_okD [OF this]
  show ?thesis
    unfolding sc_ok_def by (simp add: emit_account_validation_def Let_def r)
qed

lemma emit_state_structure_ok: "sc_ok 0 (emit_state_structure n)"
proof -
  have "sc_ok 0 (fold emit_state_field (children n))"
    by (rule sc_ok_fold0) (rule emit_helpers_ok)
  note r = sc_okD [OF this]
  show ?thesis
    unfolding sc_ok_def by (simp add: emit_state_structure_def Let_def r)
qed

definition handler_steps :: "ASTNode \<Rightarrow> nat" where
  "handler_steps n = (case left n of Some b \<Rightarrow> instruction_handlers b | None \<Rightarrow> 0) + 1"

lemma solana_frame:
  "sc_ok (handler_steps n) (emit_instruction_handler g n)
   \<and> sc_ok (instruction_handlers n) (solana_compiler_compile g n)"
proof (induction n rule: measure_induct_rule [of size])
  case (less n)
  then have IH: "\<And>m. size m < size n \<Longrightarrow> sc_ok (instruction_handlers m) (solana_compiler_compile g m)"
    by blast
  have sub:
    "\<And>m. left n = Some m \<Longrightarrow> sc_ok (instruction_handlers m) (solana_compiler_compile g m)"
    "\<And>m. condition n = Some m \<Longrightarrow> sc_ok (instruction_handlers m) (solana_compiler_compile g m)"
    using IH size_left size_condition by blast+
  note sub_rules = sc_okD [OF sub(1)] sc_okD [OF sub(2)]
  have h: "sc_ok (handler_steps n) (emit_instruction_handler g n)"
    unfolding sc_ok_def
    by (simp add: emit_instruction_handler.simps [of g n] handler_steps_def Let_def sub_rules
          split: option.splits)
  note h_rules = sc_okD [OF h]
  have kids: "sc_ok (sum_list (map instruction_handlers (children n)))
                (fold (solana_compiler_compile g) (children n))"
    by (rule sc_ok_fold) (use IH size_children in blast)
  note kid_rules = sc_okD [OF kids]
  note helper_rules = sc_okD [OF emit_helpers_ok(1)] sc_okD [OF emit_helpers_ok(2)]
    sc_okD [OF emit_helpers_ok(3)] sc_okD [OF emit_helpers_ok(6)]
    sc_okD [OF emit_account_validation_ok] sc_okD [OF emit_state_structure_ok]
  consider (prog) "ntype n = NODE_PROGRAM_DECL"
    | (instr) "ntype n = NODE_INSTRUCTION_DECL"
    | (req) "ntype n = NODE_REQUIRE_STMT"
    | (other) "ntype n \<noteq> NODE_PROGRAM_DECL" "ntype n \<noteq> NODE_INSTRUCTION_DECL"
        "ntype n \<noteq> NODE_REQUIRE_STMT"
    by blast
  then have "sc_ok (instruction_handlers n) (solana_compiler_compile g n)"
  proof cases
    case prog
    then show ?thesis
      unfolding sc_ok_def
      by (simp add: solana_compiler_compile.simps [of g n] instruction_handlers.simps [of n]
            Let_def kid_rules helper_rules)
  next
    case instr
    then show ?thesis
      unfolding sc_ok_def
      by (simp add: solana_compiler_compile.simps [of g n] instruction_handlers.simps [of n]
            h_rules handler_steps_def)
  next
    case req
    then show ?thesis
      unfolding sc_ok_def
      by (simp add: solana_compiler_compile.simps [of g n] instruction_handlers.simps [of n]
            Let_def sub_rules split: option.splits)
  next
    case other
    then show ?thesis
      unfolding sc_ok_def
      by (simp add: solana_compiler_compile.simps [of g n] instruction_handlers.simps [of n]
            Let_def helper_rules)
  qed
  with h show ?case
    by simp
qed


lemma sc_text:
  assumes "sc_ok k f"
  shows "sc_output (f c) = sc_output c @ sc_output (f (c\<lparr>sc_output := []\<rparr>))"
proof -
  have "c = sc_prepend (sc_output c) (c\<lparr>sc_output := []\<rparr>)"
    by (simp add: sc_prepend_def)
  then have "f c = sc_prepend (sc_output c) (f (c\<lparr>sc_output := []\<rparr>))"
    using sc_okD(1) [OF assms] by metis
  then show ?thesis
    by simp
qed

lemma sum_list_indicator:
  "sum_list (map (\<lambda>x. if P x then 1 else 0) xs) = length (filter P xs)"
  by (induction xs) simp_all

text \<open>The text the chain emitter appends for a node, started in state \<open>c\<close>.\<close>

definition emitted_text :: "(ASTNode \<Rightarrow> string) \<Rightarrow> ASTNode \<Rightarrow> SolanaCompiler \<Rightarrow> string" where
  "emitted_text g n c = sc_output (solana_compiler_compile g n (c\<lparr>sc_output := []\<rparr>))"

lemma emitted_text_fprintf [simp]: "emitted_text g n (sc_fprintf c s) = emitted_text g n c"
  by (simp add: emitted_text_def sc_fprintf_def)

lemma solana_compile_text:
  "sc_output (solana_compiler_compile g n c) = sc_output c @ emitted_text g n c"
  unfolding emitted_text_def using solana_frame sc_text by blast

lemma instruction_handler_text:
  assumes "\<not> use_anchor c"
  shows "sc_output (emit_instruction_handler g ins c) =
           sc_output c @ ''    match instruction_data[0] {'' @ NL
           @ ''        '' @ decimal (instruction_count c) @ '' => {'' @ NL
           @ ''            msg!('' @ DQ @ ''Executing '' @ str_arg (instruction_name (sol ins)) @ DQ
           @ '');'' @ NL
           @ (case left ins of Some b \<Rightarrow> emitted_text g b c | None \<Rightarrow> [])
           @ ''        },'' @ NL @ ''    }'' @ NL"
  using assms
  by (simp add: emit_instruction_handler.simps [of g ins] Let_def solana_compile_text
        split: option.splits)

text \<open>
  C4 (as amended). Under the raw target, with a fresh compiler, let the children of a
  program declaration be \<open>pre @ ins # post\<close> with \<open>ins\<close> an instruction declaration,
  and let no child in \<open>pre\<close> hold a nested instruction declaration (each instruction
  declaration in \<open>pre\<close> runs the handler emitter once, every other child never). Then
  the counter before \<open>ins\<close> is the number \<open>i\<close> of instruction declarations in
  \<open>pre\<close>, and \<open>ins\<close> is emitted as \<^verbatim>\<open>match instruction_data[0] { i => { ... }, }\<close>.
\<close>

theorem raw_dispatch_opcode_is_instruction_index:
  assumes "ntype p = NODE_PROGRAM_DECL"
    and "children p = pre @ ins # post"
    and "ntype ins = NODE_INSTRUCTION_DECL"
    and "\<forall>x\<in>set pre. instruction_handlers x = (if ntype x = NODE_INSTRUCTION_DECL then 1 else 0)"
  shows "solana_compiler_compile g p (solana_compiler_create False) =
           sc_fprintf (sc_fprintf
             (fold (solana_compiler_compile g) post
                (solana_compiler_compile g ins
                   (fold (solana_compiler_compile g) pre
                      (emit_program_structure p
                         (emit_native_solana_imports (solana_compiler_create False))))))
             (''    Ok(())'' @ NL)) (''}'' @ NL)
       \<and> instruction_count
             (fold (solana_compiler_compile g) pre
                (emit_program_structure p
                   (emit_native_solana_imports (solana_compiler_create False))))
           = length (filter (\<lambda>x. ntype x = NODE_INSTRUCTION_DECL) pre)
       \<and> sc_output (solana_compiler_compile g ins
             (fold (solana_compiler_compile g) pre
                (emit_program_structure p
                   (emit_native_solana_imports (solana_compiler_create False)))))
           = sc_output (fold (solana_compiler_compile g) pre
                (emit_program_structure p
                   (emit_native_solana_imports (solana_compiler_create False))))
             @ ''    match instruction_data[0] {'' @ NL
             @ ''        '' @ decimal (length (filter (\<lambda>x. ntype x = NODE_INSTRUCTION_DECL) pre))
             @ '' => {'' @ NL
             @ ''            msg!('' @ DQ @ ''Executing '' @ str_arg (instruction_name (sol ins)) @ DQ
             @ '');'' @ NL
             @ (case left ins of
                  Some b \<Rightarrow> emitted_text g b
                             (fold (solana_compiler_compile g) pre
                                (emit_program_structure p
                                   (emit_native_solana_imports (solana_compiler_create False))))
                | None \<Rightarrow> [])
             @ ''        },'' @ NL @ ''    }'' @ NL"
proof -
  let ?c0 = "solana_compiler_create False"
  let ?s0 = "emit_program_structure p (emit_native_solana_imports ?c0)"
  let ?s1 = "fold (solana_compiler_compile g) pre ?s0"
  let ?s2 = "solana_compiler_compile g ins ?s1"
  have c0: "\<not> use_anchor ?c0" "instruction_count ?c0 = 0"
    by (simp_all add: solana_compiler_create_def)
  have s0: "\<not> use_anchor ?s0" "instruction_count ?s0 = 0"
    using c0 sc_okD(2,3) [OF emit_helpers_ok(2)] sc_okD(2,3) [OF emit_helpers_ok(3)] by simp_all
  have fold_ok: "sc_ok (sum_list (map instruction_handlers xs)) (fold (solana_compiler_compile g) xs)"
    for xs
    by (rule sc_ok_fold) (use solana_frame in blast)
  have "sum_list (map instruction_handlers pre) =
        sum_list (map (\<lambda>x. if ntype x = NODE_INSTRUCTION_DECL then 1 else 0) pre)"
    using assms(4) by (intro arg_cong [where f = sum_list] map_cong) simp_all
  then have n: "sum_list (map instruction_handlers pre) =
                length (filter (\<lambda>x. ntype x = NODE_INSTRUCTION_DECL) pre)"
    by (simp add: sum_list_indicator)
  have s1: "\<not> use_anchor ?s1"
    "instruction_count ?s1 = length (filter (\<lambda>x. ntype x = NODE_INSTRUCTION_DECL) pre)"
    using sc_okD(2,3) [OF fold_ok [of pre], of ?s0] s0 n by simp_all
  have s2: "\<not> use_anchor ?s2"
    using sc_okD(2) [of "instruction_handlers ins" "solana_compiler_compile g ins" ?s1]
      solana_frame s1(1) by blast
  have s3: "\<not> use_anchor (fold (solana_compiler_compile g) post ?s2)"
    using sc_okD(2) [OF fold_ok [of post], of ?s2] s2 by simp
  have whole: "solana_compiler_compile g p ?c0 =
               sc_fprintf (sc_fprintf (fold (solana_compiler_compile g) post ?s2)
                 (''    Ok(())'' @ NL)) (''}'' @ NL)"
    using c0(1) s3
    by (simp add: solana_compiler_compile.simps [of g p] assms(1,2) Let_def)
  have arm: "sc_output ?s2 = sc_output ?s1 @ ''    match instruction_data[0] {'' @ NL
             @ ''        '' @ decimal (length (filter (\<lambda>x. ntype x = NODE_INSTRUCTION_DECL) pre))
             @ '' => {'' @ NL
             @ ''            msg!('' @ DQ @ ''Executing '' @ str_arg (instruction_name (sol ins)) @ DQ
             @ '');'' @ NL
             @ (case left ins of Some b \<Rightarrow> emitted_text g b ?s1 | None \<Rightarrow> [])
             @ ''        },'' @ NL @ ''    }'' @ NL"
    using instruction_handler_text [OF s1(1), of g ins]
    by (simp add: solana_compiler_compile.simps [of g ins] assms(3) s1(2))
  from whole s1(2) arm show ?thesis
    by blast
qed


definition example_instruction_a :: ASTNode where
  "example_instruction_a =
     ASTNode NODE_INSTRUCTION_DECL ''initialize''
       (Some (ASTNode NODE_PRINT_STMT []
                (Some (ASTNode NODE_STRING ''hi'' None None None None None [] sol_default))
                None None None None [] sol_default))
       None None None None [] (sol_default\<lparr>instruction_name := Some ''initialize''\<rparr>)"

definition example_instruction_b :: ASTNode where
  "example_instruction_b =
     ASTNode NODE_INSTRUCTION_DECL ''increment'' None None None None None []
       (sol_default\<lparr>instruction_name := Some ''increment''\<rparr>)"

definition example_chain_program :: ASTNode where
  "example_chain_program =
     ASTNode NODE_PROGRAM_DECL ''Counter'' None None None None None
       [example_instruction_a, example_instruction_b] sol_default"

theorem raw_dispatch_opcode_is_instruction_index_witness:
  "ntype example_chain_program = NODE_PROGRAM_DECL
   \<and> children example_chain_program = [example_instruction_a] @ example_instruction_b # []
   \<and> ntype example_instruction_b = NODE_INSTRUCTION_DECL
   \<and> ntype example_instruction_a = NODE_INSTRUCTION_DECL
   \<and> instruction_handlers example_instruction_a = 1
   \<and> instruction_count
         (fold (solana_compiler_compile (statement_text False)) [example_instruction_a]
            (emit_program_structure example_chain_program
               (emit_native_solana_imports (solana_compiler_create False)))) = 1"
proof -
  have h1: "ntype example_chain_program = NODE_PROGRAM_DECL"
    by (simp add: example_chain_program_def)
  have h2: "children example_chain_program = [example_instruction_a] @ example_instruction_b # []"
    by (simp add: example_chain_program_def)
  have h3: "ntype example_instruction_b = NODE_INSTRUCTION_DECL"
    by (simp add: example_instruction_b_def)
  have h3a: "ntype example_instruction_a = NODE_INSTRUCTION_DECL"
    by (simp add: example_instruction_a_def)
  have h5: "instruction_handlers example_instruction_a = 1"
    by (simp add: example_instruction_a_def instruction_handlers.simps)
  have h4: "\<forall>x\<in>set [example_instruction_a].
              instruction_handlers x = (if ntype x = NODE_INSTRUCTION_DECL then 1 else 0)"
    using h3a h5 by simp
  from raw_dispatch_opcode_is_instruction_index [OF h1 h2 h3 h4, of "statement_text False"] h1 h2 h3 h3a h5 show ?thesis
    by simp
qed

definition nested_instruction_b :: ASTNode where
  "nested_instruction_b =
     ASTNode NODE_INSTRUCTION_DECL ''b'' None None None None None []
       (sol_default\<lparr>instruction_name := Some ''b''\<rparr>)"

definition nested_instruction_a :: ASTNode where
  "nested_instruction_a =
     ASTNode NODE_INSTRUCTION_DECL ''a'' (Some nested_instruction_b) None None None None []
       (sol_default\<lparr>instruction_name := Some ''a''\<rparr>)"

definition nested_instruction_c :: ASTNode where
  "nested_instruction_c =
     ASTNode NODE_INSTRUCTION_DECL ''c'' None None None None None []
       (sol_default\<lparr>instruction_name := Some ''c''\<rparr>)"

definition nested_chain_program :: ASTNode where
  "nested_chain_program =
     ASTNode NODE_PROGRAM_DECL ''P'' None None None None None
       [nested_instruction_a, nested_instruction_c] sol_default"

lemma decimal_small [simp]: "decimal 0 = ''0''" "decimal 1 = ''1''" "decimal 2 = ''2''"
  by (simp_all add: decimal.simps)

text \<open>
  C4 (as stated) fails when an instruction body holds an instruction declaration: the
  counter is incremented after the body, so in \<^verbatim>\<open>program P { instruction a() { instruction b() { } } instruction c() { } }\<close>
  the second instruction declaration of the program, \<open>c\<close>, is keyed on opcode 2.
\<close>

theorem raw_dispatch_nested_instruction_counterexample:
  "children nested_chain_program = [nested_instruction_a, nested_instruction_c]
   \<and> ntype nested_instruction_a = NODE_INSTRUCTION_DECL
   \<and> ntype nested_instruction_c = NODE_INSTRUCTION_DECL
   \<and> sc_output (solana_compiler_compile (statement_text False) nested_instruction_c
         (fold (solana_compiler_compile (statement_text False)) [nested_instruction_a]
            (emit_program_structure nested_chain_program
               (emit_native_solana_imports (solana_compiler_create False)))))
     = sc_output
         (fold (solana_compiler_compile (statement_text False)) [nested_instruction_a]
            (emit_program_structure nested_chain_program
               (emit_native_solana_imports (solana_compiler_create False))))
       @ ''    match instruction_data[0] {'' @ NL
       @ ''        2 => {'' @ NL
       @ ''            msg!('' @ DQ @ ''Executing c'' @ DQ @ '');'' @ NL
       @ ''        },'' @ NL @ ''    }'' @ NL"
proof -
  let ?g = "statement_text False"
  let ?s0 = "emit_program_structure nested_chain_program
               (emit_native_solana_imports (solana_compiler_create False))"
  let ?s1 = "solana_compiler_compile ?g nested_instruction_a ?s0"
  have s0: "\<not> use_anchor ?s0" "instruction_count ?s0 = 0"
    using sc_okD(2,3) [OF emit_helpers_ok(2)] sc_okD(2,3) [OF emit_helpers_ok(3)]
    by (simp_all add: solana_compiler_create_def)
  have hb: "instruction_handlers nested_instruction_b = 1"
    by (simp add: nested_instruction_b_def instruction_handlers.simps)
  have ha: "instruction_handlers nested_instruction_a = 2"
    using hb by (simp add: nested_instruction_a_def instruction_handlers.simps [of "ASTNode _ _ _ _ _ _ _ _ _"])
  have ok: "sc_ok 2 (solana_compiler_compile ?g nested_instruction_a)"
    using solana_frame [of nested_instruction_a ?g] ha by simp
  have s1: "\<not> use_anchor ?s1" "instruction_count ?s1 = 2"
    using sc_okD(2,3) [OF ok, of ?s0] s0 by simp_all
  have c: "ntype nested_instruction_c = NODE_INSTRUCTION_DECL" "left nested_instruction_c = None"
    "str_arg (instruction_name (sol nested_instruction_c)) = ''c''"
    by (simp_all add: nested_instruction_c_def str_arg_def sol_default_def)
  have a: "ntype nested_instruction_a = NODE_INSTRUCTION_DECL"
    by (simp add: nested_instruction_a_def)
  have k: "children nested_chain_program = [nested_instruction_a, nested_instruction_c]"
    by (simp add: nested_chain_program_def)
  have "sc_output (solana_compiler_compile ?g nested_instruction_c ?s1) =
        sc_output ?s1 @ ''    match instruction_data[0] {'' @ NL
       @ ''        2 => {'' @ NL
       @ ''            msg!('' @ DQ @ ''Executing c'' @ DQ @ '');'' @ NL
       @ ''        },'' @ NL @ ''    }'' @ NL"
    using instruction_handler_text [OF s1(1), of ?g nested_instruction_c]
    by (simp add: solana_compiler_compile.simps [of ?g nested_instruction_c] s1(2) c)
  with k a c(1) show ?thesis
    by simp
qed

text \<open>
  C5 (as amended). The require statement is emitted from its condition alone. Under the
  framework target the guard is \<^verbatim>\<open>require!(cond, ErrorCode::CustomError);\<close>, under the
  raw target it is \<^verbatim>\<open>if !(cond) { return Err(ProgramError::InvalidArgument); }\<close>; in
  both, replacing the message \<open>m\<close> by any other \<open>m'\<close> leaves the compiler state,
  and so the output, the same.
\<close>

theorem require_guard_ignores_message:
  "sc_output (solana_compiler_compile g (ASTNode NODE_REQUIRE_STMT m l r cond tb eb ch sf) c) =
     sc_output c
     @ (if use_anchor c then
          ''        require!(''
          @ (case cond of Some e \<Rightarrow> emitted_text g e c | None \<Rightarrow> [])
          @ '', ErrorCode::CustomError);'' @ NL
        else
          ''            if !(''
          @ (case cond of Some e \<Rightarrow> emitted_text g e c | None \<Rightarrow> [])
          @ '') {'' @ NL
          @ ''                return Err(ProgramError::InvalidArgument);'' @ NL
          @ ''            }'' @ NL)
   \<and> solana_compiler_compile g (ASTNode NODE_REQUIRE_STMT m l r cond tb eb ch sf) c
     = solana_compiler_compile g (ASTNode NODE_REQUIRE_STMT m' l r cond tb eb ch sf) c"
  by (simp add: solana_compiler_compile.simps [of g "ASTNode _ _ _ _ _ _ _ _ _"] Let_def
        solana_compile_text split: option.splits)

definition scenario_e_require :: ASTNode where
  "scenario_e_require =
     ASTNode NODE_REQUIRE_STMT ''must be positive'' None None
       (Some (ASTNode NODE_BINARY_OP ''>''
                (Some (ASTNode NODE_IDENTIFIER ''x'' None None None None None [] sol_default))
                (Some (ASTNode NODE_NUMBER ''0'' None None None None None [] sol_default))
                None None None [] sol_default))
       None None [] sol_default"

lemma scenario_e_anchor_text:
  "sc_output (solana_compiler_compile (statement_text True) scenario_e_require
                (solana_compiler_create True))
   = ''        require!(x > 0, ErrorCode::CustomError);'' @ NL"
  by (simp add: scenario_e_require_def solana_compiler_create_def statement_text_def
        compiler_create_def solana_compiler_compile.simps [of _ "ASTNode _ _ _ _ _ _ _ _ _"]
        compiler_compile_node.simps [of "ASTNode _ _ _ _ _ _ _ _ _"] Let_def sc_fprintf_def fprintf_def)

text \<open>
  C5 (as stated) fails under the framework target: for
  \<^verbatim>\<open>require(x > 0, "must be positive")\<close>, with the emitter of so\_lang\_enhanced.c
  for the condition, the emitted guard does not contain the message.
\<close>

theorem require_framework_message_counterexample:
  "nvalue scenario_e_require = ''must be positive''
   \<and> \<not> sublist ''must be positive''
         (sc_output (solana_compiler_compile (statement_text True) scenario_e_require
                       (solana_compiler_create True)))"
  unfolding scenario_e_anchor_text
  by (simp add: scenario_e_require_def NL_def sublist_Cons_right prefix_Cons)


subsection \<open>Compiling the same tree twice\<close>



lemma sc_fprintf_native [simp]: "native_solana (sc_fprintf c s) = native_solana c"
  by (simp add: sc_fprintf_def)

lemma sc_fprintf_count_update [simp]:
  "sc_fprintf (c\<lparr>instruction_count := j\<rparr>) s = (sc_fprintf c s)\<lparr>instruction_count := j\<rparr>"
  by (simp add: sc_fprintf_def)












section \<open>The lexer of so\_lang\_enhanced.c\<close>

text \<open>
  The functions of this file that differ from their namesakes in so\_lang.c carry the
  prefix \<open>enh_\<close>. This lexer shares \<^verbatim>\<open>lexer_current_char\<close>, \<^verbatim>\<open>lexer_advance\<close>,
  \<^verbatim>\<open>lexer_skip_whitespace\<close>, \<^verbatim>\<open>lexer_add_token\<close> and the identifier loop with
  the lexer of so\_lang.c, to which its text is identical there. Its string scanner
  stores an escaped character with \<^verbatim>\<open>buffer[i++]\<close> without the test
  \<^verbatim>\<open>i < MAX_TOKEN_LEN - 1\<close>, and ends with \<^verbatim>\<open>buffer[i] = 0\<close>: a store at an
  index of \<^verbatim>\<open>MAX_TOKEN_LEN\<close> or more is outside \<^verbatim>\<open>char buffer[MAX_TOKEN_LEN]\<close>.
  The model stops with \<open>BufferOverflow\<close> at such a store.
\<close>

datatype lex_fault = BufferOverflow

function lexer_skip_comment_loop :: "Lexer \<Rightarrow> Lexer" where
  "lexer_skip_comment_loop L =
     (if lexer_current_char L \<noteq> CHR 0x0A \<and> lexer_current_char L \<noteq> NUL
      then lexer_skip_comment_loop (lexer_advance L) else L)"
  by pat_completeness auto
termination
  by (relation "measure (\<lambda>L. length (source L) - pos L)")
     (auto dest: lexer_current_char_in_range)

declare lexer_skip_comment_loop.simps [simp del]

definition lexer_skip_comment :: "Lexer \<Rightarrow> Lexer" where
  "lexer_skip_comment L =
     (if lexer_current_char L = CHR ''/'' \<and> source_at (source L) (pos L + 1) = CHR ''/''
      then lexer_skip_comment_loop L else L)"

definition escape_char :: "char \<Rightarrow> char" where
  "escape_char escaped =
     (if escaped = CHR ''n'' then CHR 0x0A
      else if escaped = CHR ''t'' then CHR 0x09
      else if escaped = CHR ''r'' then CHR 0x0D
      else if escaped = CHR 0x5C then CHR 0x5C
      else if escaped = CHR 0x22 then CHR 0x22
      else escaped)"

function enh_lexer_read_string_loop :: "Lexer \<Rightarrow> string \<Rightarrow> lex_fault + Lexer \<times> string" where
  "enh_lexer_read_string_loop L buffer =
     (if lexer_current_char L \<noteq> CHR 0x22 \<and> lexer_current_char L \<noteq> NUL then
        (if lexer_current_char L = CHR 0x5C then
           (let L1 = lexer_advance L;
                escaped = lexer_current_char L1
            in if length buffer \<ge> MAX_TOKEN_LEN then Inl BufferOverflow
               else enh_lexer_read_string_loop (lexer_advance L1)
                      (buffer @ [escape_char escaped]))
         else
           enh_lexer_read_string_loop (lexer_advance L)
             (if length buffer < MAX_TOKEN_LEN - 1 then buffer @ [lexer_current_char L]
              else buffer))
      else Inr (L, buffer))"
  by pat_completeness auto
termination
proof (relation "measure (\<lambda>(L, b). length (source L) - pos L)", goal_cases)
  case 1
  then show ?case by simp
next
  case (2 L buffer x xa)
  then have "pos L < length (source L)"
    using lexer_current_char_in_range by blast
  with 2 show ?case
    by simp
next
  case (3 L buffer)
  then show ?case
    by (auto dest: lexer_current_char_in_range)
qed

declare enh_lexer_read_string_loop.simps [simp del]

definition enh_lexer_read_string :: "Lexer \<Rightarrow> lex_fault + Lexer" where
  "enh_lexer_read_string L =
     (case enh_lexer_read_string_loop (lexer_advance L) [] of
        Inl e \<Rightarrow> Inl e
      | Inr (L1, buffer) \<Rightarrow>
          (let L2 = (if lexer_current_char L1 = CHR 0x22 then lexer_advance L1 else L1)
           in if length buffer \<ge> MAX_TOKEN_LEN then Inl BufferOverflow
              else Inr (lexer_add_token L2 TOKEN_STRING buffer)))"

definition enh_keyword_type :: "string \<Rightarrow> TokenType" where
  "enh_keyword_type buffer =
     (if buffer = ''let'' then TOKEN_LET
      else if buffer = ''fn'' then TOKEN_FN
      else if buffer = ''if'' then TOKEN_IF
      else if buffer = ''else'' then TOKEN_ELSE
      else if buffer = ''return'' then TOKEN_RETURN
      else if buffer = ''print'' then TOKEN_PRINT
      else TOKEN_IDENTIFIER)"

definition enh_lexer_read_identifier :: "Lexer \<Rightarrow> Lexer" where
  "enh_lexer_read_identifier L =
     (let (L1, buffer) = lexer_read_identifier_loop L []
      in lexer_add_token L1 (enh_keyword_type buffer) buffer)"

function enh_lexer_read_number_loop :: "Lexer \<Rightarrow> string \<Rightarrow> bool \<Rightarrow> Lexer \<times> string" where
  "enh_lexer_read_number_loop L buffer has_dot =
     (if isdigit (lexer_current_char L) \<or> (lexer_current_char L = CHR ''.'' \<and> \<not> has_dot)
      then enh_lexer_read_number_loop (lexer_advance L)
             (if length buffer < MAX_TOKEN_LEN - 1 then buffer @ [lexer_current_char L]
              else buffer)
             (if lexer_current_char L = CHR ''.'' then True else has_dot)
      else (L, buffer))"
  by pat_completeness auto
termination
proof (relation "measure (\<lambda>(L, b, d). length (source L) - pos L)", goal_cases)
  case 1
  then show ?case by simp
next
  case (2 L buffer has_dot)
  then have "lexer_current_char L \<noteq> NUL"
    using char_class_NUL(1,6) by metis
  then show ?case
    by (auto dest: lexer_current_char_in_range)
qed

declare enh_lexer_read_number_loop.simps [simp del]

definition enh_lexer_read_number :: "Lexer \<Rightarrow> Lexer" where
  "enh_lexer_read_number L =
     (let (L1, buffer) = enh_lexer_read_number_loop L [] False
      in lexer_add_token L1 TOKEN_NUMBER buffer)"

definition enh_lexer_punctuation :: "Lexer \<Rightarrow> char \<Rightarrow> Lexer" where
  "enh_lexer_punctuation L c =
     lexer_advance
      (if c = CHR ''='' then
         (if source_at (source L) (pos L + 1) = CHR ''=''
          then lexer_add_token (lexer_advance L) TOKEN_EQUAL ''==''
          else lexer_add_token L TOKEN_ASSIGN ''='')
       else if c = CHR ''+'' then lexer_add_token L TOKEN_PLUS [c]
       else if c = CHR ''-'' then lexer_add_token L TOKEN_MINUS [c]
       else if c = CHR ''*'' then lexer_add_token L TOKEN_MULTIPLY [c]
       else if c = CHR ''/'' then lexer_add_token L TOKEN_DIVIDE [c]
       else if c = CHR ''<'' then lexer_add_token L TOKEN_LESS [c]
       else if c = CHR ''>'' then lexer_add_token L TOKEN_GREATER [c]
       else if c = CHR ''('' then lexer_add_token L TOKEN_LPAREN [c]
       else if c = CHR '')'' then lexer_add_token L TOKEN_RPAREN [c]
       else if c = CHR ''{'' then lexer_add_token L TOKEN_LBRACE [c]
       else if c = CHR ''}'' then lexer_add_token L TOKEN_RBRACE [c]
       else if c = CHR '','' then lexer_add_token L TOKEN_COMMA [c]
       else if c = CHR '';'' then lexer_add_token L TOKEN_SEMICOLON [c]
       else error L)"

definition enh_lexer_tokenize_body :: "Lexer \<Rightarrow> lex_fault + Lexer" where
  "enh_lexer_tokenize_body L =
     (let c = lexer_current_char L in
      if isspace c \<and> c \<noteq> CHR 0x0A then Inr (lexer_skip_whitespace L)
      else if c = CHR ''/'' \<and> source_at (source L) (pos L + 1) = CHR ''/''
      then Inr (lexer_skip_comment L)
      else if c = CHR 0x0A then Inr (lexer_advance (lexer_add_token L TOKEN_NEWLINE [CHR 0x0A]))
      else if c = CHR 0x22 then enh_lexer_read_string L
      else if isalpha c \<or> c = CHR ''_'' then Inr (enh_lexer_read_identifier L)
      else if isdigit c then Inr (enh_lexer_read_number L)
      else Inr (enh_lexer_punctuation L c))"

lemma lexer_skip_comment_loop_source [simp]:
  "source (lexer_skip_comment_loop L) = source L"
proof (induction L rule: lexer_skip_comment_loop.induct)
  case (1 L)
  then show ?case
    by (subst lexer_skip_comment_loop.simps) simp
qed

lemma lexer_skip_comment_loop_pos: "pos L \<le> pos (lexer_skip_comment_loop L)"
proof (induction L rule: lexer_skip_comment_loop.induct)
  case (1 L)
  show ?case
  proof (cases "lexer_current_char L \<noteq> CHR 0x0A \<and> lexer_current_char L \<noteq> NUL")
    case True
    with 1 have "pos (lexer_advance L) \<le> pos (lexer_skip_comment_loop (lexer_advance L))"
      by simp
    with True show ?thesis
      by (subst lexer_skip_comment_loop.simps) simp
  next
    case False
    then show ?thesis
      by (subst lexer_skip_comment_loop.simps) auto
  qed
qed

lemma lexer_skip_comment_source [simp]: "source (lexer_skip_comment L) = source L"
  by (simp add: lexer_skip_comment_def)

lemma lexer_skip_comment_progress:
  assumes "lexer_current_char L = CHR ''/''" "source_at (source L) (pos L + 1) = CHR ''/''"
  shows "pos L < pos (lexer_skip_comment L)"
proof -
  have "pos (lexer_advance L) \<le> pos (lexer_skip_comment_loop (lexer_advance L))"
    by (rule lexer_skip_comment_loop_pos)
  moreover have "lexer_skip_comment_loop L = lexer_skip_comment_loop (lexer_advance L)"
    using assms(1) by (subst lexer_skip_comment_loop.simps) (simp add: NUL_def)
  ultimately show ?thesis
    using assms by (simp add: lexer_skip_comment_def)
qed

lemma enh_lexer_read_string_loop_ok:
  "enh_lexer_read_string_loop L b = Inr (L', b') \<Longrightarrow> source L' = source L \<and> pos L \<le> pos L'"
proof (induction L b rule: enh_lexer_read_string_loop.induct)
  case (1 L buffer)
  show ?case
  proof (cases "lexer_current_char L \<noteq> CHR 0x22 \<and> lexer_current_char L \<noteq> NUL")
    case False
    with "1.prems" show ?thesis
      by (subst (asm) enh_lexer_read_string_loop.simps) auto
  next
    case True
    show ?thesis
    proof (cases "lexer_current_char L = CHR 0x5C")
      case esc: True
      with True "1.prems" have ok: "\<not> length buffer \<ge> MAX_TOKEN_LEN"
        and r: "enh_lexer_read_string_loop (lexer_advance (lexer_advance L))
                  (buffer @ [escape_char (lexer_current_char (lexer_advance L))]) = Inr (L', b')"
        by (subst (asm) enh_lexer_read_string_loop.simps, simp add: Let_def split: if_splits)+
      from "1.IH"(1) [OF True esc refl refl ok r] show ?thesis
        by simp
    next
      case noesc: False
      with True "1.prems" have
        r: "enh_lexer_read_string_loop (lexer_advance L)
              (if length buffer < MAX_TOKEN_LEN - 1 then buffer @ [lexer_current_char L]
               else buffer) = Inr (L', b')"
        by (subst (asm) enh_lexer_read_string_loop.simps) simp
      from "1.IH"(2) [OF True noesc r] show ?thesis
        by simp
    qed
  qed
qed

lemma enh_lexer_read_string_ok:
  assumes "enh_lexer_read_string L = Inr L'"
  shows "source L' = source L \<and> pos L < pos L'"
proof -
  from assms obtain L1 buffer where
    r: "enh_lexer_read_string_loop (lexer_advance L) [] = Inr (L1, buffer)"
    by (auto simp: enh_lexer_read_string_def split: sum.splits)
  from enh_lexer_read_string_loop_ok [OF r] have "source L1 = source L" "pos L + 1 \<le> pos L1"
    by simp_all
  with assms r show ?thesis
    by (auto simp: enh_lexer_read_string_def Let_def split: if_splits)
qed

lemma enh_lexer_read_identifier_source [simp]:
  "source (enh_lexer_read_identifier L) = source L"
  by (simp add: enh_lexer_read_identifier_def Let_def split: prod.splits)
     (metis fst_conv lexer_read_identifier_loop_source)

lemma enh_lexer_read_identifier_progress:
  assumes "isalpha (lexer_current_char L) \<or> lexer_current_char L = CHR ''_''"
  shows "pos L < pos (enh_lexer_read_identifier L)"
proof -
  let ?b = "if length ([]::string) < MAX_TOKEN_LEN - 1 then [] @ [lexer_current_char L] else []"
  obtain L1 buffer where r: "lexer_read_identifier_loop (lexer_advance L) ?b = (L1, buffer)"
    by (cases "lexer_read_identifier_loop (lexer_advance L) ?b")
  have "pos (lexer_advance L) \<le> pos L1"
    using lexer_read_identifier_loop_pos [of "lexer_advance L" ?b] r by simp
  moreover have "lexer_read_identifier_loop L [] = (L1, buffer)"
    using assms r by (subst lexer_read_identifier_loop.simps) (auto simp: isalnum_def)
  ultimately show ?thesis
    by (simp add: enh_lexer_read_identifier_def Let_def)
qed

lemma enh_lexer_read_number_loop_source [simp]:
  "source (fst (enh_lexer_read_number_loop L b d)) = source L"
proof (induction L b d rule: enh_lexer_read_number_loop.induct)
  case (1 L buffer has_dot)
  then show ?case
    by (subst enh_lexer_read_number_loop.simps) simp
qed

lemma enh_lexer_read_number_loop_pos: "pos L \<le> pos (fst (enh_lexer_read_number_loop L b d))"
proof (induction L b d rule: enh_lexer_read_number_loop.induct)
  case (1 L buffer has_dot)
  show ?case
  proof (cases "isdigit (lexer_current_char L) \<or> (lexer_current_char L = CHR ''.'' \<and> \<not> has_dot)")
    case True
    with 1 have "pos (lexer_advance L) \<le> pos (fst (enh_lexer_read_number_loop (lexer_advance L)
          (if length buffer < MAX_TOKEN_LEN - 1 then buffer @ [lexer_current_char L]
           else buffer) (if lexer_current_char L = CHR ''.'' then True else has_dot)))"
      by simp
    with True show ?thesis
      by (subst enh_lexer_read_number_loop.simps) (simp add: less_imp_le Suc_le_lessD)
  next
    case False
    then show ?thesis
      by (subst enh_lexer_read_number_loop.simps) auto
  qed
qed

lemma enh_lexer_read_number_source [simp]: "source (enh_lexer_read_number L) = source L"
  by (simp add: enh_lexer_read_number_def Let_def split: prod.splits)
     (metis fst_conv enh_lexer_read_number_loop_source)

lemma enh_lexer_read_number_progress:
  assumes "isdigit (lexer_current_char L)"
  shows "pos L < pos (enh_lexer_read_number L)"
proof -
  let ?b = "if length ([]::string) < MAX_TOKEN_LEN - 1 then [] @ [lexer_current_char L] else []"
  let ?d = "if lexer_current_char L = CHR ''.'' then True else False"
  obtain L1 buffer where r: "enh_lexer_read_number_loop (lexer_advance L) ?b ?d = (L1, buffer)"
    by (cases "enh_lexer_read_number_loop (lexer_advance L) ?b ?d")
  have "pos (lexer_advance L) \<le> pos L1"
    using enh_lexer_read_number_loop_pos [of "lexer_advance L" ?b ?d] r by simp
  moreover have "enh_lexer_read_number_loop L [] False = (L1, buffer)"
    using assms r by (subst enh_lexer_read_number_loop.simps) auto
  ultimately show ?thesis
    by (simp add: enh_lexer_read_number_def Let_def)
qed

lemma enh_lexer_punctuation_ok [simp]:
  "source (enh_lexer_punctuation L c) = source L" "pos L < pos (enh_lexer_punctuation L c)"
  by (simp_all add: enh_lexer_punctuation_def)

lemma enh_lexer_tokenize_body_ok:
  assumes "enh_lexer_tokenize_body L = Inr L'"
  shows "source L' = source L \<and> pos L < pos L'"
  using assms
  by (auto simp: enh_lexer_tokenize_body_def Let_def lexer_skip_whitespace_progress
        lexer_skip_comment_progress enh_lexer_read_identifier_progress
        enh_lexer_read_number_progress
      dest: enh_lexer_read_string_ok split: if_splits)

function enh_lexer_tokenize_loop :: "Lexer \<Rightarrow> lex_fault + Lexer" where
  "enh_lexer_tokenize_loop L =
     (if lexer_current_char L \<noteq> NUL then
        (case enh_lexer_tokenize_body L of
           Inl e \<Rightarrow> Inl e
         | Inr L' \<Rightarrow> enh_lexer_tokenize_loop L')
      else Inr L)"
  by pat_completeness auto
termination
proof (relation "measure (\<lambda>L. length (source L) - pos L)", goal_cases)
  case 1
  then show ?case by simp
next
  case (2 L L')
  then have "pos L < length (source L)"
    using lexer_current_char_in_range by blast
  with enh_lexer_tokenize_body_ok [OF 2(2)] show ?case
    by (simp add: diff_less_mono2)
qed

declare enh_lexer_tokenize_loop.simps [simp del]

definition enh_lexer_tokenize :: "Lexer \<Rightarrow> lex_fault + Lexer" where
  "enh_lexer_tokenize L =
     (case enh_lexer_tokenize_loop L of
        Inl e \<Rightarrow> Inl e
      | Inr L' \<Rightarrow> Inr (lexer_add_token L' TOKEN_EOF []))"

text \<open>
  A string literal of 255 letters followed by the escape sequence \<^verbatim>\<open>\n\<close>.
\<close>

definition long_escaped_string :: string where
  "long_escaped_string = CHR 0x22 # replicate 255 (CHR ''a'') @ [CHR 0x5C, CHR ''n'', CHR 0x22]"


text \<open>
  C10. On that literal the escape branch stores at index 255 and the terminator is then
  stored at index 256, past the end of the buffer: the scan does not produce a truncated
  token but writes outside the array.
\<close>

theorem enhanced_lexer_escape_overflow:
  "enh_lexer_tokenize (lexer_create long_escaped_string) = Inl BufferOverflow"
  by code_simp


section \<open>The parser of so\_lang\_enhanced.c\<close>

text \<open>
  The \<^verbatim>\<open>Parser\<close> struct (\<^verbatim>\<open>token_count\<close> is \<open>length p_tokens\<close>) together with
  the file-level variables the parser writes: \<open>p_has_error\<close> is \<^verbatim>\<open>has_error\<close>, and
  \<open>function_names\<close> the registry \<^verbatim>\<open>function_names[0 .. function_count - 1]\<close>.
  On an empty token array \<^verbatim>\<open>parser_current_token\<close> reads before the array; the lexer
  never hands one over, and the model leaves that token unspecified.
\<close>

record Parser =
  p_tokens :: "Token list"
  p_pos :: nat
  p_has_error :: bool
  function_names :: "string list"

definition parser_create :: "Token list \<Rightarrow> Parser" where
  "parser_create ts = \<lparr>p_tokens = ts, p_pos = 0, p_has_error = False, function_names = []\<rparr>"

definition parser_current_token :: "Parser \<Rightarrow> Token" where
  "parser_current_token P =
     (if p_pos P \<ge> length (p_tokens P) then last (p_tokens P) else p_tokens P ! p_pos P)"

definition parser_advance :: "Parser \<Rightarrow> Parser" where
  "parser_advance P = (if p_pos P + 1 < length (p_tokens P) then P\<lparr>p_pos := p_pos P + 1\<rparr> else P)"

definition current_type :: "Parser \<Rightarrow> TokenType" where
  "current_type P = ttype (parser_current_token P)"

definition parser_match :: "Parser \<Rightarrow> TokenType \<Rightarrow> bool \<times> Parser" where
  "parser_match P ty = (if current_type P = ty then (True, parser_advance P) else (False, P))"

definition parser_error :: "Parser \<Rightarrow> Parser" where
  "parser_error P = P\<lparr>p_has_error := True\<rparr>"

definition leaf :: "NodeType \<Rightarrow> string \<Rightarrow> ASTNode" where
  "leaf t v = ASTNode t v None None None None None [] sol_default"

definition is_binary_operator :: "TokenType \<Rightarrow> bool" where
  "is_binary_operator ty \<longleftrightarrow>
     ty = TOKEN_PLUS \<or> ty = TOKEN_MINUS \<or> ty = TOKEN_MULTIPLY \<or> ty = TOKEN_DIVIDE
     \<or> ty = TOKEN_EQUAL \<or> ty = TOKEN_LESS \<or> ty = TOKEN_GREATER"

text \<open>
  The parsing functions are recursive and hold loops that stop only at certain tokens,
  so each takes a fuel argument: every call and every loop iteration passes on one unit
  less, and \<open>None\<close> means that the fuel ran out. A call that returns \<open>None\<close> for
  every fuel does not return in C.

  \<open>parser_skip_args\<close> is the loop that skips call arguments and parameters,
  \<open>parser_skip_terminators\<close> the loop over newlines and semicolons after a statement.
\<close>

fun parser_skip_args :: "nat \<Rightarrow> Parser \<Rightarrow> Parser option" where
  "parser_skip_args 0 P = None"
| "parser_skip_args (Suc n) P =
     (if current_type P \<noteq> TOKEN_RPAREN \<and> current_type P \<noteq> TOKEN_EOF
      then parser_skip_args n (parser_advance P) else Some P)"

fun parser_skip_terminators :: "nat \<Rightarrow> Parser \<Rightarrow> Parser option" where
  "parser_skip_terminators 0 P = None"
| "parser_skip_terminators (Suc n) P =
     (if current_type P = TOKEN_NEWLINE \<or> current_type P = TOKEN_SEMICOLON
      then parser_skip_terminators n (parser_advance P) else Some P)"

fun parser_parse_primary :: "nat \<Rightarrow> Parser \<Rightarrow> (ASTNode option \<times> Parser) option"
  and parser_parse_binary :: "nat \<Rightarrow> Parser \<Rightarrow> (ASTNode option \<times> Parser) option"
  and parser_parse_expression :: "nat \<Rightarrow> Parser \<Rightarrow> (ASTNode option \<times> Parser) option" where
  "parser_parse_primary 0 P = None"
| "parser_parse_primary (Suc n) P =
     (let token = parser_current_token P in
      if ttype token = TOKEN_NUMBER then
        Some (Some (leaf NODE_NUMBER (tvalue token)), parser_advance P)
      else if ttype token = TOKEN_STRING then
        Some (Some (leaf NODE_STRING (tvalue token)), parser_advance P)
      else if ttype token = TOKEN_IDENTIFIER then
        (let P1 = parser_advance P in
         if current_type P1 = TOKEN_LPAREN then
           (case parser_skip_args n (parser_advance P1) of
              None \<Rightarrow> None
            | Some P2 \<Rightarrow>
                Some (Some (leaf NODE_FUNC_CALL (tvalue token)),
                      snd (parser_match P2 TOKEN_RPAREN)))
         else Some (Some (leaf NODE_IDENTIFIER (tvalue token)), P1))
      else if ttype token = TOKEN_LPAREN then
        (case parser_parse_expression n (parser_advance P) of
           None \<Rightarrow> None
         | Some (node, P1) \<Rightarrow> Some (node, snd (parser_match P1 TOKEN_RPAREN)))
      else Some (None, P))"
| "parser_parse_binary 0 P = None"
| "parser_parse_binary (Suc n) P =
     (case parser_parse_primary n P of
        None \<Rightarrow> None
      | Some (lhs, P1) \<Rightarrow>
          (let op = parser_current_token P1 in
           if is_binary_operator (ttype op) then
             (case parser_parse_primary n (parser_advance P1) of
                None \<Rightarrow> None
              | Some (rhs, P2) \<Rightarrow>
                  Some (Some (ASTNode NODE_BINARY_OP (tvalue op) lhs rhs None None None []
                                sol_default), P2))
           else Some (lhs, P1)))"
| "parser_parse_expression 0 P = None"
| "parser_parse_expression (Suc n) P = parser_parse_binary n P"

definition register_function :: "Parser \<Rightarrow> string \<Rightarrow> Parser" where
  "register_function P name =
     (if length (function_names P) < MAX_FUNCTIONS
      then P\<lparr>function_names := function_names P @ [name]\<rparr> else P)"

definition add_child :: "nat \<Rightarrow> ASTNode list \<Rightarrow> ASTNode option \<Rightarrow> ASTNode list" where
  "add_child limit ch stmt =
     (case stmt of Some s \<Rightarrow> (if length ch < limit then ch @ [s] else ch) | None \<Rightarrow> ch)"

fun parser_parse_block :: "nat \<Rightarrow> Parser \<Rightarrow> (ASTNode \<times> Parser) option"
  and parser_parse_block_loop ::
    "nat \<Rightarrow> Parser \<Rightarrow> ASTNode list \<Rightarrow> (ASTNode list \<times> Parser) option"
  and parser_parse_function :: "nat \<Rightarrow> Parser \<Rightarrow> (ASTNode option \<times> Parser) option"
  and parser_parse_statement :: "nat \<Rightarrow> Parser \<Rightarrow> (ASTNode option \<times> Parser) option" where
  "parser_parse_block 0 P = None"
| "parser_parse_block (Suc n) P =
     (if current_type P \<noteq> TOKEN_LBRACE then
        Some (ASTNode NODE_PROGRAM [] None None None None None [] sol_default, parser_error P)
      else
        (case parser_parse_block_loop n (parser_advance P) [] of
           None \<Rightarrow> None
         | Some (ch, P1) \<Rightarrow>
             Some (ASTNode NODE_PROGRAM [] None None None None None ch sol_default,
                   snd (parser_match P1 TOKEN_RBRACE))))"
| "parser_parse_block_loop 0 P ch = None"
| "parser_parse_block_loop (Suc n) P ch =
     (if current_type P \<noteq> TOKEN_RBRACE \<and> current_type P \<noteq> TOKEN_EOF then
        (if current_type P = TOKEN_NEWLINE then parser_parse_block_loop n (parser_advance P) ch
         else
           (case parser_parse_statement n P of
              None \<Rightarrow> None
            | Some (stmt, P1) \<Rightarrow> parser_parse_block_loop n P1 (add_child 50 ch stmt)))
      else Some (ch, P))"
| "parser_parse_function 0 P = None"
| "parser_parse_function (Suc n) P =
     (let P1 = parser_advance P;
          name = parser_current_token P1
      in if ttype name = TOKEN_IDENTIFIER then
           (let P2 = parser_advance P1 in
            case (if current_type P2 = TOKEN_LPAREN then
                    (case parser_skip_args n (parser_advance P2) of
                       None \<Rightarrow> None
                     | Some P3 \<Rightarrow> Some (snd (parser_match P3 TOKEN_RPAREN)))
                  else Some P2) of
              None \<Rightarrow> None
            | Some P4 \<Rightarrow>
                (case parser_parse_block n P4 of
                   None \<Rightarrow> None
                 | Some (body, P5) \<Rightarrow>
                     Some (Some (ASTNode NODE_FUNC_DECL (tvalue name) (Some body) None None None
                                   None [] sol_default),
                           register_function P5 (tvalue name))))
         else Some (Some (leaf NODE_FUNC_DECL []), P1))"
| "parser_parse_statement 0 P = None"
| "parser_parse_statement (Suc n) P =
     (case
        (if current_type P = TOKEN_FN then parser_parse_function n P
         else if current_type P = TOKEN_LET then
           (let P1 = parser_advance P;
                name = parser_current_token P1
            in if ttype name = TOKEN_IDENTIFIER then
                 (let P2 = parser_advance P1 in
                  if current_type P2 = TOKEN_ASSIGN then
                    (case parser_parse_expression n (parser_advance P2) of
                       None \<Rightarrow> None
                     | Some (e, P3) \<Rightarrow>
                         Some (Some (ASTNode NODE_VAR_DECL (tvalue name) None e None None None []
                                       sol_default), P3))
                  else Some (Some (leaf NODE_VAR_DECL (tvalue name)), P2))
               else Some (Some (leaf NODE_VAR_DECL []), P1))
         else if current_type P = TOKEN_PRINT then
           (let P1 = parser_advance P in
            if current_type P1 = TOKEN_LPAREN then
              (case parser_parse_expression n (parser_advance P1) of
                 None \<Rightarrow> None
               | Some (e, P2) \<Rightarrow>
                   Some (Some (ASTNode NODE_PRINT_STMT [] e None None None None [] sol_default),
                         snd (parser_match P2 TOKEN_RPAREN)))
            else Some (Some (leaf NODE_PRINT_STMT []), P1))
         else if current_type P = TOKEN_IF then
           (case parser_parse_expression n (parser_advance P) of
              None \<Rightarrow> None
            | Some (cond, P2) \<Rightarrow>
                (case parser_parse_block n P2 of
                   None \<Rightarrow> None
                 | Some (tb, P3) \<Rightarrow>
                     (if current_type P3 = TOKEN_ELSE then
                        (let P4 = parser_advance P3 in
                         if current_type P4 = TOKEN_IF then
                           (case parser_parse_statement n P4 of
                              None \<Rightarrow> None
                            | Some (eb, P5) \<Rightarrow>
                                Some (Some (ASTNode NODE_IF_STMT [] None None cond (Some tb) eb []
                                              sol_default), P5))
                         else
                           (case parser_parse_block n P4 of
                              None \<Rightarrow> None
                            | Some (eb, P5) \<Rightarrow>
                                Some (Some (ASTNode NODE_IF_STMT [] None None cond (Some tb)
                                              (Some eb) [] sol_default), P5)))
                      else
                        Some (Some (ASTNode NODE_IF_STMT [] None None cond (Some tb) None []
                                      sol_default), P3))))
         else if current_type P = TOKEN_RETURN then
           (let P1 = parser_advance P in
            if current_type P1 \<noteq> TOKEN_NEWLINE \<and> current_type P1 \<noteq> TOKEN_SEMICOLON
               \<and> current_type P1 \<noteq> TOKEN_EOF then
              (case parser_parse_expression n P1 of
                 None \<Rightarrow> None
               | Some (e, P2) \<Rightarrow>
                   Some (Some (ASTNode NODE_RETURN_STMT [] e None None None None [] sol_default),
                         P2))
            else Some (Some (leaf NODE_RETURN_STMT []), P1))
         else parser_parse_expression n P) of
        None \<Rightarrow> None
      | Some (node, P') \<Rightarrow>
          (case parser_skip_terminators n P' of
             None \<Rightarrow> None
           | Some P'' \<Rightarrow> Some (node, P'')))"

fun parser_parse_loop :: "nat \<Rightarrow> Parser \<Rightarrow> ASTNode list \<Rightarrow> (ASTNode list \<times> Parser) option" where
  "parser_parse_loop 0 P ch = None"
| "parser_parse_loop (Suc n) P ch =
     (if current_type P \<noteq> TOKEN_EOF then
        (if current_type P = TOKEN_NEWLINE then parser_parse_loop n (parser_advance P) ch
         else
           (case parser_parse_statement n P of
              None \<Rightarrow> None
            | Some (stmt, P1) \<Rightarrow> parser_parse_loop n P1 (add_child 200 ch stmt)))
      else Some (ch, P))"

definition parser_parse :: "nat \<Rightarrow> Parser \<Rightarrow> (ASTNode \<times> Parser) option" where
  "parser_parse n P =
     (case parser_parse_loop n P [] of
        None \<Rightarrow> None
      | Some (ch, P') \<Rightarrow>
          Some (ASTNode NODE_PROGRAM [] None None None None None ch sol_default, P'))"

text \<open>A token at line 1, column 1, for examples.\<close>

definition tok :: "TokenType \<Rightarrow> string \<Rightarrow> Token" where
  "tok ty v = \<lparr>ttype = ty, tvalue = v, tline = 1, tcolumn = 1\<rparr>"



section \<open>Properties of the parser\<close>

lemma parser_advance_tokens [simp]: "p_tokens (parser_advance P) = p_tokens P"
  by (simp add: parser_advance_def)

lemma parser_match_tokens [simp]: "p_tokens (snd (parser_match P ty)) = p_tokens P"
  by (simp add: parser_match_def)

text \<open>
  Tokens at which no statement rule and no primary rule applies: the statement parser
  returns \<^verbatim>\<open>NULL\<close> there without advancing.
\<close>

definition stuck :: "Parser \<Rightarrow> bool" where
  "stuck P \<longleftrightarrow>
     current_type P \<in> {TOKEN_RBRACE, TOKEN_RPAREN, TOKEN_COMMA, TOKEN_ASSIGN, TOKEN_ELSE,
                       TOKEN_LBRACE, TOKEN_NOT_EQUAL}"

lemma stuck_primary:
  "stuck P \<Longrightarrow> parser_parse_primary n P = None \<or> parser_parse_primary n P = Some (None, P)"
  by (cases n) (auto simp: stuck_def current_type_def Let_def)

lemma stuck_binary:
  assumes "stuck P"
  shows "parser_parse_binary n P = None \<or> parser_parse_binary n P = Some (None, P)"
proof (cases n)
  case 0
  then show ?thesis by simp
next
  case (Suc m)
  have "\<not> is_binary_operator (ttype (parser_current_token P))"
    using assms by (auto simp: stuck_def current_type_def is_binary_operator_def)
  with stuck_primary [OF assms, of m] Suc show ?thesis
    by (auto simp: Let_def)
qed

lemma stuck_expression:
  assumes "stuck P"
  shows "parser_parse_expression n P = None \<or> parser_parse_expression n P = Some (None, P)"
  using stuck_binary [OF assms] by (cases n) auto

lemma stuck_terminators:
  "stuck P \<Longrightarrow> parser_skip_terminators n P = None \<or> parser_skip_terminators n P = Some P"
  by (cases n) (auto simp: stuck_def)

lemma stuck_statement:
  assumes "stuck P"
  shows "parser_parse_statement n P = None \<or> parser_parse_statement n P = Some (None, P)"
proof (cases n)
  case 0
  then show ?thesis by simp
next
  case (Suc m)
  have t: "current_type P \<noteq> TOKEN_FN" "current_type P \<noteq> TOKEN_LET"
    "current_type P \<noteq> TOKEN_PRINT" "current_type P \<noteq> TOKEN_IF" "current_type P \<noteq> TOKEN_RETURN"
    using assms by (auto simp: stuck_def)
  from stuck_expression [OF assms, of m] stuck_terminators [OF assms, of m] show ?thesis
    by (auto simp: Suc t)
qed

lemma stuck_parse_loop:
  assumes "stuck P"
  shows "parser_parse_loop n P ch = None"
proof (induction n)
  case 0
  then show ?case by simp
next
  case (Suc n)
  have t: "current_type P \<noteq> TOKEN_EOF" "current_type P \<noteq> TOKEN_NEWLINE"
    using assms by (auto simp: stuck_def)
  from stuck_statement [OF assms, of n] Suc show ?case
    by (auto simp: t add_child_def)
qed

text \<open>The tokens of the source text \<^verbatim>\<open>}\<close>.\<close>

definition stray_brace_tokens :: "Token list" where
  "stray_brace_tokens =
     [\<lparr>ttype = TOKEN_RBRACE, tvalue = ''}'', tline = 1, tcolumn = 1\<rparr>,
      \<lparr>ttype = TOKEN_EOF, tvalue = [], tline = 1, tcolumn = 2\<rparr>]"

lemma stray_brace_lexed:
  "map_sum id tokens (enh_lexer_tokenize (lexer_create ''}'')) = Inr stray_brace_tokens"
  by code_simp

text \<open>
  C9. On the tokens of the source text \<^verbatim>\<open>}\<close>, which end in the end-of-input token,
  the top-level loop of \<^verbatim>\<open>parser_parse\<close> never reaches that token: the statement
  parser returns without consuming the brace, so no amount of fuel lets the parser return.
\<close>

theorem parser_parse_stray_brace_never_returns: "parser_parse fuel (parser_create stray_brace_tokens) = None"
proof -
  have "stuck (parser_create stray_brace_tokens)"
    by (simp add: stuck_def current_type_def parser_current_token_def parser_create_def
          stray_brace_tokens_def)
  then show ?thesis
    by (simp add: parser_parse_def stuck_parse_loop)
qed


text \<open>
  The expression trees of the grammar \<^verbatim>\<open>primary (binop primary)?\<close>: a number, string,
  identifier or call node without subnodes, or a binary-operator node whose two operands
  are both there and are such trees (a binary-operator operand is a parenthesized
  sub-expression).
\<close>

fun expression_tree :: "ASTNode \<Rightarrow> bool" where
  "expression_tree (ASTNode t v l r c tb eb ch s) =
     (c = None \<and> tb = None \<and> eb = None \<and> ch = []
      \<and> (if t = NODE_BINARY_OP then
            (case l of None \<Rightarrow> False | Some x \<Rightarrow> expression_tree x)
            \<and> (case r of None \<Rightarrow> False | Some y \<Rightarrow> expression_tree y)
          else (t = NODE_NUMBER \<or> t = NODE_STRING \<or> t = NODE_IDENTIFIER \<or> t = NODE_FUNC_CALL)
               \<and> l = None \<and> r = None))"

text \<open>
  What \<^verbatim>\<open>parser_parse_primary\<close> and \<^verbatim>\<open>parser_parse_binary\<close> build: the same trees,
  but an operand of a binary-operator node may be \<^verbatim>\<open>NULL\<close>
  (\<open>partial_expression_tree\<close>), and the result itself may be \<^verbatim>\<open>NULL\<close>
  (\<open>partial_expression_result\<close>). \<open>operands_present\<close> says that no binary-operator
  node of a tree has a \<^verbatim>\<open>NULL\<close> operand.
\<close>

fun partial_expression_tree :: "ASTNode \<Rightarrow> bool" where
  "partial_expression_tree (ASTNode t v l r c tb eb ch s) =
     (c = None \<and> tb = None \<and> eb = None \<and> ch = []
      \<and> (if t = NODE_BINARY_OP then
            (case l of None \<Rightarrow> True | Some x \<Rightarrow> partial_expression_tree x)
            \<and> (case r of None \<Rightarrow> True | Some y \<Rightarrow> partial_expression_tree y)
          else (t = NODE_NUMBER \<or> t = NODE_STRING \<or> t = NODE_IDENTIFIER \<or> t = NODE_FUNC_CALL)
               \<and> l = None \<and> r = None))"

definition partial_expression_result :: "ASTNode option \<Rightarrow> bool" where
  "partial_expression_result r = (case r of None \<Rightarrow> True | Some e \<Rightarrow> partial_expression_tree e)"

fun operands_present :: "ASTNode \<Rightarrow> bool" where
  "operands_present (ASTNode t v l r c tb eb ch s) =
     (if t = NODE_BINARY_OP then
        (case l of None \<Rightarrow> False | Some x \<Rightarrow> operands_present x)
        \<and> (case r of None \<Rightarrow> False | Some y \<Rightarrow> operands_present y)
      else True)"

lemma partial_expression_tree_complete:
  "partial_expression_tree e \<Longrightarrow> operands_present e \<Longrightarrow> expression_tree e"
  by (induction e rule: partial_expression_tree.induct) (auto split: option.splits if_splits)

lemma partial_expression_result_simps [simp]:
  "partial_expression_result None" "partial_expression_result (Some e) = partial_expression_tree e"
  by (simp_all add: partial_expression_result_def)

lemma partial_expression_tree_leaf [simp]:
  "partial_expression_tree (leaf NODE_NUMBER v)" "partial_expression_tree (leaf NODE_STRING v)"
  "partial_expression_tree (leaf NODE_IDENTIFIER v)" "partial_expression_tree (leaf NODE_FUNC_CALL v)"
  by (simp_all add: leaf_def)

lemma partial_expression_tree_binary [simp]:
  "partial_expression_tree (ASTNode NODE_BINARY_OP v l r None None None [] s)
   = (partial_expression_result l \<and> partial_expression_result r)"
  by (simp add: partial_expression_result_def)

lemma parse_partial_expression_tree:
  "(parser_parse_primary n P = Some (r, P') \<longrightarrow> partial_expression_result r)
   \<and> (parser_parse_binary n P = Some (r, P') \<longrightarrow> partial_expression_result r)
   \<and> (parser_parse_expression n P = Some (r, P') \<longrightarrow> partial_expression_result r)"
proof (induction n arbitrary: P r P')
  case 0
  then show ?case by simp
next
  case (Suc n)
  have IHp: "\<And>P r P'. parser_parse_primary n P = Some (r, P') \<Longrightarrow> partial_expression_result r"
    and IHb: "\<And>P r P'. parser_parse_binary n P = Some (r, P') \<Longrightarrow> partial_expression_result r"
    and IHe: "\<And>P r P'. parser_parse_expression n P = Some (r, P') \<Longrightarrow> partial_expression_result r"
    using Suc by blast+
  have p: "parser_parse_primary (Suc n) P = Some (r, P') \<longrightarrow> partial_expression_result r"
    by (auto simp: Let_def split: if_splits option.splits dest: IHe)
  have b: "parser_parse_binary (Suc n) P = Some (r, P') \<longrightarrow> partial_expression_result r"
  proof
    assume a: "parser_parse_binary (Suc n) P = Some (r, P')"
    then obtain lhs P1 where p: "parser_parse_primary n P = Some (lhs, P1)"
      by (auto split: option.splits)
    then have l: "partial_expression_result lhs"
      by (rule IHp)
    show "partial_expression_result r"
    proof (cases "is_binary_operator (ttype (parser_current_token P1))")
      case True
      with a p obtain rhs where
        q: "parser_parse_primary n (parser_advance P1) = Some (rhs, P')"
        and r: "r = Some (ASTNode NODE_BINARY_OP (tvalue (parser_current_token P1)) lhs rhs
                           None None None [] sol_default)"
        by (auto simp: Let_def split: option.splits)
      from q have "partial_expression_result rhs"
        by (rule IHp)
      with l r show ?thesis
        by (simp add: partial_expression_result_def)
    next
      case False
      with a p l show ?thesis
        by (simp add: Let_def)
    qed
  qed
  have e: "parser_parse_expression (Suc n) P = Some (r, P') \<longrightarrow> partial_expression_result r"
    using IHb by auto
  from p b e show ?case
    by blast
qed

lemma primary_operator_in_parentheses:
  assumes "parser_parse_primary n P = Some (Some e, P')" "ntype e = NODE_BINARY_OP"
  shows "current_type P = TOKEN_LPAREN"
  using assms
  by (cases n) (auto simp: Let_def leaf_def current_type_def split: if_splits option.splits)

lemma primary_null:
  assumes "parser_parse_primary n P = Some (None, P')"
  shows "current_type P \<notin> {TOKEN_NUMBER, TOKEN_STRING, TOKEN_IDENTIFIER}"
  using assms
  by (cases n) (auto simp: Let_def current_type_def split: if_splits option.splits)

lemma primary_no_start:
  assumes "current_type P \<notin> {TOKEN_NUMBER, TOKEN_STRING, TOKEN_IDENTIFIER, TOKEN_LPAREN}"
  shows "parser_parse_primary (Suc n) P = Some (None, P)"
  using assms by (simp add: Let_def current_type_def)

lemma binary_unfold:
  assumes "parser_parse_expression (Suc (Suc n)) P = Some (r, P')"
  shows "\<exists>lhs P1. parser_parse_primary n P = Some (lhs, P1)
           \<and> (if is_binary_operator (current_type P1)
               then \<exists>rhs. parser_parse_primary n (parser_advance P1) = Some (rhs, P')
                      \<and> r = Some (ASTNode NODE_BINARY_OP (tvalue (parser_current_token P1))
                                    lhs rhs None None None [] sol_default)
               else r = lhs \<and> P' = P1)"
proof -
  from assms have b: "parser_parse_binary (Suc n) P = Some (r, P')"
    by simp
  then obtain lhs P1 where p: "parser_parse_primary n P = Some (lhs, P1)"
    by (auto split: option.splits)
  show ?thesis
  proof (cases "is_binary_operator (current_type P1)")
    case True
    with b p obtain rhs where
      "parser_parse_primary n (parser_advance P1) = Some (rhs, P')"
      "r = Some (ASTNode NODE_BINARY_OP (tvalue (parser_current_token P1)) lhs rhs None None None
                   [] sol_default)"
      by (auto simp: Let_def current_type_def split: option.splits)
    with p True show ?thesis
      by simp
  next
    case False
    with b p have "r = lhs" "P' = P1"
      by (auto simp: Let_def current_type_def)
    with p False show ?thesis
      by simp
  qed
qed

text \<open>
  A parser state over a token sequence that ends in the end-of-input token, with the
  position inside the sequence.
\<close>

definition parser_wf :: "Parser \<Rightarrow> bool" where
  "parser_wf P \<longleftrightarrow>
     p_tokens P \<noteq> [] \<and> ttype (last (p_tokens P)) = TOKEN_EOF \<and> p_pos P < length (p_tokens P)"

definition remaining :: "Parser \<Rightarrow> nat" where
  "remaining P = length (p_tokens P) - p_pos P"

lemma wf_not_eof_advances:
  assumes "parser_wf P" "current_type P \<noteq> TOKEN_EOF"
  shows "p_pos P + 1 < length (p_tokens P)"
proof (rule ccontr)
  assume "\<not> p_pos P + 1 < length (p_tokens P)"
  with assms(1) have "p_pos P = length (p_tokens P) - 1"
    unfolding parser_wf_def by linarith
  with assms(1) have "parser_current_token P = last (p_tokens P)"
    by (simp add: parser_current_token_def parser_wf_def last_conv_nth)
  with assms show False
    by (simp add: current_type_def parser_wf_def)
qed

lemma wf_advance [simp]: "parser_wf P \<Longrightarrow> parser_wf (parser_advance P)"
  by (simp add: parser_wf_def parser_advance_def)

lemma wf_match [simp]: "parser_wf P \<Longrightarrow> parser_wf (snd (parser_match P ty))"
  by (simp add: parser_match_def)

lemma remaining_advance_le [simp]: "remaining (parser_advance P) \<le> remaining P"
  by (simp add: remaining_def parser_advance_def diff_le_mono2)

lemma remaining_match_le [simp]: "remaining (snd (parser_match P ty)) \<le> remaining P"
  by (simp add: parser_match_def)

lemma remaining_advance_less:
  assumes "parser_wf P" "current_type P \<noteq> TOKEN_EOF"
  shows "remaining (parser_advance P) < remaining P"
  using wf_not_eof_advances [OF assms] by (simp add: remaining_def parser_advance_def)

lemma skip_args_total:
  "parser_wf P \<Longrightarrow> remaining P \<le> n \<Longrightarrow>
   \<exists>P'. parser_skip_args n P = Some P' \<and> parser_wf P' \<and> remaining P' \<le> remaining P"
proof (induction n arbitrary: P)
  case 0
  then show ?case
    by (simp add: parser_wf_def remaining_def)
next
  case (Suc n)
  show ?case
  proof (cases "current_type P \<noteq> TOKEN_RPAREN \<and> current_type P \<noteq> TOKEN_EOF")
    case True
    then have lt: "remaining (parser_advance P) < remaining P"
      using remaining_advance_less Suc.prems(1) by blast
    then have "remaining (parser_advance P) \<le> n"
      using Suc.prems(2) by simp
    from Suc.IH [OF wf_advance [OF Suc.prems(1)] this] obtain P' where
      "parser_skip_args n (parser_advance P) = Some P'" "parser_wf P'"
      "remaining P' \<le> remaining (parser_advance P)"
      by blast
    with True lt show ?thesis
      by auto
  next
    case False
    with Suc.prems show ?thesis
      by auto
  qed
qed

definition returns :: "(ASTNode option \<times> Parser) option \<Rightarrow> Parser \<Rightarrow> bool" where
  "returns res P \<longleftrightarrow>
     (\<exists>r P'. res = Some (r, P') \<and> parser_wf P' \<and> remaining P' \<le> remaining P)"

lemma expression_total:
  "parser_wf P \<Longrightarrow>
   (3 * remaining P + 1 \<le> n \<longrightarrow> returns (parser_parse_primary n P) P)
   \<and> (3 * remaining P + 2 \<le> n \<longrightarrow> returns (parser_parse_binary n P) P)
   \<and> (3 * remaining P + 3 \<le> n \<longrightarrow> returns (parser_parse_expression n P) P)"
proof (induction n arbitrary: P rule: less_induct)
  case (less n)
  note wf = less.prems
  have prim: "returns (parser_parse_primary n P) P" if le: "3 * remaining P + 1 \<le> n"
  proof -
    from le obtain m where n: "n = Suc m" and m: "3 * remaining P \<le> m"
      by (cases n) auto
    let ?tok = "parser_current_token P"
    consider (num) "ttype ?tok = TOKEN_NUMBER" | (str) "ttype ?tok = TOKEN_STRING"
      | (call) "ttype ?tok = TOKEN_IDENTIFIER" "current_type (parser_advance P) = TOKEN_LPAREN"
      | (ident) "ttype ?tok = TOKEN_IDENTIFIER" "current_type (parser_advance P) \<noteq> TOKEN_LPAREN"
      | (paren) "ttype ?tok = TOKEN_LPAREN"
      | (other) "ttype ?tok \<noteq> TOKEN_NUMBER" "ttype ?tok \<noteq> TOKEN_STRING"
          "ttype ?tok \<noteq> TOKEN_IDENTIFIER" "ttype ?tok \<noteq> TOKEN_LPAREN"
      by blast
    then show ?thesis
    proof cases
      case num
      with wf show ?thesis by (simp add: n returns_def Let_def)
    next
      case str
      with wf show ?thesis by (simp add: n returns_def Let_def)
    next
      case ident
      with wf show ?thesis by (simp add: n returns_def Let_def)
    next
      case other
      with wf show ?thesis by (simp add: n returns_def Let_def)
    next
      case call
      let ?P2 = "parser_advance (parser_advance P)"
      have r2: "remaining ?P2 \<le> remaining P"
        by (meson remaining_advance_le order_trans)
      have "parser_wf ?P2" "remaining ?P2 \<le> m"
        using wf m r2 by simp_all
      from skip_args_total [OF this] obtain P' where
        "parser_skip_args m ?P2 = Some P'" "parser_wf P'" "remaining P' \<le> remaining ?P2"
        by blast
      moreover from this r2 have "remaining (snd (parser_match P' TOKEN_RPAREN)) \<le> remaining P"
        by (meson remaining_match_le order_trans)
      ultimately show ?thesis
        using call by (simp add: n returns_def Let_def)
    next
      case paren
      then have ne: "current_type P \<noteq> TOKEN_EOF"
        by (simp add: current_type_def)
      have lt: "remaining (parser_advance P) < remaining P"
        using remaining_advance_less [OF wf ne] .
      then have "3 * remaining (parser_advance P) + 3 \<le> m"
        using m by simp
      moreover have "m < n"
        using n by simp
      ultimately have "returns (parser_parse_expression m (parser_advance P)) (parser_advance P)"
        using less.IH [of m "parser_advance P"] wf by simp
      then obtain r P' where
        "parser_parse_expression m (parser_advance P) = Some (r, P')" "parser_wf P'"
        "remaining P' \<le> remaining (parser_advance P)"
        by (auto simp: returns_def)
      moreover from this lt have "remaining (snd (parser_match P' TOKEN_RPAREN)) \<le> remaining P"
        by (meson remaining_match_le order_trans less_imp_le)
      ultimately show ?thesis
        using paren by (simp add: n returns_def Let_def)
    qed
  qed
  have bin: "returns (parser_parse_binary n P) P" if le: "3 * remaining P + 2 \<le> n"
  proof -
    from le obtain m where n: "n = Suc m" and m: "3 * remaining P + 1 \<le> m"
      by (cases n) auto
    have "m < n" using n by simp
    with less.IH [of m P] wf m obtain lhs P1 where
      p1: "parser_parse_primary m P = Some (lhs, P1)" "parser_wf P1" "remaining P1 \<le> remaining P"
      by (auto simp: returns_def)
    show ?thesis
    proof (cases "is_binary_operator (ttype (parser_current_token P1))")
      case False
      with p1 show ?thesis
        by (simp add: n returns_def Let_def)
    next
      case True
      let ?P2 = "parser_advance P1"
      have r2: "remaining ?P2 \<le> remaining P"
        using p1(3) by (meson remaining_advance_le order_trans)
      then have "3 * remaining ?P2 + 1 \<le> m"
        using m by simp
      with less.IH [of m ?P2] \<open>m < n\<close> p1(2) obtain rhs P3 where
        "parser_parse_primary m ?P2 = Some (rhs, P3)" "parser_wf P3" "remaining P3 \<le> remaining ?P2"
        by (auto simp: returns_def)
      with True p1 r2 show ?thesis
        by (auto simp: n returns_def Let_def)
    qed
  qed
  have expr: "returns (parser_parse_expression n P) P" if le: "3 * remaining P + 3 \<le> n"
  proof -
    from le obtain m where n: "n = Suc m" and m: "3 * remaining P + 2 \<le> m"
      by (cases n) auto
    have "m < n" using n by simp
    with less.IH [of m P] wf m have "returns (parser_parse_binary m P) P"
      by simp
    then show ?thesis
      by (simp add: n)
  qed
  from prim bin expr show ?case
    by blast
qed


text \<open>
  C1 (as amended). On a token sequence that ends in the end-of-input token, parsing an
  expression returns (with fuel \<open>3 * remaining P + 3\<close>). Whenever it returns, the
  result is built in one of two ways: it is the result of one primary, when the token
  after that primary is no binary operator (nothing more is consumed); or it is a single
  binary-operator node over the result of that primary and the result of one more primary
  parsed after the operator. The result of a primary is \<^verbatim>\<open>NULL\<close> when no primary starts
  at the current token (any token other than a number, a string, an identifier or an
  opening parenthesis: nothing is consumed then), and never when the token is a number, a
  string or an identifier; so the result of the expression and each operand may be
  \<^verbatim>\<open>NULL\<close>, and a result without \<^verbatim>\<open>NULL\<close> operands is an expression tree of the
  grammar. A primary is an operator node only when it began with an opening parenthesis,
  so operators are never chained and no precedence is applied.
\<close>

theorem parse_expression_single_binary_application:
  "(parser_wf P \<longrightarrow> (\<exists>r P'. parser_parse_expression (3 * remaining P + 3) P = Some (r, P')))
   \<and> (parser_parse_expression (Suc (Suc n)) P = Some (r, P') \<longrightarrow>
        partial_expression_result r
        \<and> (\<exists>lhs P1. parser_parse_primary n P = Some (lhs, P1)
              \<and> (if is_binary_operator (current_type P1)
                  then \<exists>rhs. parser_parse_primary n (parser_advance P1) = Some (rhs, P')
                         \<and> r = Some (ASTNode NODE_BINARY_OP (tvalue (parser_current_token P1))
                                       lhs rhs None None None [] sol_default)
                  else r = lhs \<and> P' = P1)))
   \<and> (parser_parse_expression n P = Some (Some e, P') \<longrightarrow> operands_present e
        \<longrightarrow> expression_tree e)
   \<and> (parser_parse_primary n P = Some (Some e, P') \<longrightarrow> ntype e = NODE_BINARY_OP
        \<longrightarrow> current_type P = TOKEN_LPAREN)
   \<and> (parser_parse_primary n P = Some (None, P')
        \<longrightarrow> current_type P \<notin> {TOKEN_NUMBER, TOKEN_STRING, TOKEN_IDENTIFIER})
   \<and> (current_type P \<notin> {TOKEN_NUMBER, TOKEN_STRING, TOKEN_IDENTIFIER, TOKEN_LPAREN}
        \<longrightarrow> parser_parse_primary (Suc n) P = Some (None, P))"
proof (intro conjI impI)
  assume "parser_wf P"
  then have "returns (parser_parse_expression (3 * remaining P + 3) P) P"
    using expression_total [of P "3 * remaining P + 3"] by simp
  then show "\<exists>r P'. parser_parse_expression (3 * remaining P + 3) P = Some (r, P')"
    by (auto simp: returns_def)
next
  assume "parser_parse_expression (Suc (Suc n)) P = Some (r, P')"
  then show "partial_expression_result r"
    using parse_partial_expression_tree by blast
next
  assume "parser_parse_expression (Suc (Suc n)) P = Some (r, P')"
  then show "\<exists>lhs P1. parser_parse_primary n P = Some (lhs, P1)
              \<and> (if is_binary_operator (current_type P1)
                  then \<exists>rhs. parser_parse_primary n (parser_advance P1) = Some (rhs, P')
                         \<and> r = Some (ASTNode NODE_BINARY_OP (tvalue (parser_current_token P1))
                                       lhs rhs None None None [] sol_default)
                  else r = lhs \<and> P' = P1)"
    by (rule binary_unfold)
next
  assume "parser_parse_expression n P = Some (Some e, P')" "operands_present e"
  moreover from this have "partial_expression_result (Some e)"
    using parse_partial_expression_tree by blast
  ultimately show "expression_tree e"
    using partial_expression_tree_complete by simp
next
  assume "parser_parse_primary n P = Some (Some e, P')" "ntype e = NODE_BINARY_OP"
  then show "current_type P = TOKEN_LPAREN"
    by (rule primary_operator_in_parentheses)
next
  assume "parser_parse_primary n P = Some (None, P')"
  then show "current_type P \<notin> {TOKEN_NUMBER, TOKEN_STRING, TOKEN_IDENTIFIER}"
    by (rule primary_null)
next
  assume "current_type P \<notin> {TOKEN_NUMBER, TOKEN_STRING, TOKEN_IDENTIFIER, TOKEN_LPAREN}"
  then show "parser_parse_primary (Suc n) P = Some (None, P)"
    by (rule primary_no_start)
qed

text \<open>
  The tokens of \<^verbatim>\<open>a + b * c\<close>: the expression is \<open>a + b\<close>, and \<^verbatim>\<open>* c\<close> is left
  for the next statement. The tokens of \<^verbatim>\<open>(a + b)\<close>: a primary that is an operator
  node. The tokens of \<^verbatim>\<open>a +\<close>, of \<^verbatim>\<open>-5\<close> and of \<^verbatim>\<open>)\<close>.
\<close>

definition chain_tokens :: "Token list" where
  "chain_tokens =
     [tok TOKEN_IDENTIFIER ''a'', tok TOKEN_PLUS ''+'', tok TOKEN_IDENTIFIER ''b'',
      tok TOKEN_MULTIPLY ''*'', tok TOKEN_IDENTIFIER ''c'', tok TOKEN_EOF []]"

definition paren_tokens :: "Token list" where
  "paren_tokens =
     [tok TOKEN_LPAREN ''('', tok TOKEN_IDENTIFIER ''a'', tok TOKEN_PLUS ''+'',
      tok TOKEN_IDENTIFIER ''b'', tok TOKEN_RPAREN '')'', tok TOKEN_EOF []]"

definition dangling_operator_tokens :: "Token list" where
  "dangling_operator_tokens =
     [tok TOKEN_IDENTIFIER ''a'', tok TOKEN_PLUS ''+'', tok TOKEN_EOF []]"

definition leading_operator_tokens :: "Token list" where
  "leading_operator_tokens =
     [tok TOKEN_MINUS ''-'', tok TOKEN_NUMBER ''5'', tok TOKEN_EOF []]"

definition closing_parenthesis_tokens :: "Token list" where
  "closing_parenthesis_tokens = [tok TOKEN_RPAREN '')'', tok TOKEN_EOF []]"

definition a_plus_b :: ASTNode where
  "a_plus_b = ASTNode NODE_BINARY_OP ''+'' (Some (leaf NODE_IDENTIFIER ''a''))
                (Some (leaf NODE_IDENTIFIER ''b'')) None None None [] sol_default"

definition a_plus_null :: ASTNode where
  "a_plus_null = ASTNode NODE_BINARY_OP ''+'' (Some (leaf NODE_IDENTIFIER ''a''))
                   None None None None [] sol_default"

definition null_minus_5 :: ASTNode where
  "null_minus_5 = ASTNode NODE_BINARY_OP ''-'' None
                    (Some (leaf NODE_NUMBER ''5'')) None None None [] sol_default"

theorem parse_expression_single_binary_application_witness:
  "parser_wf (parser_create chain_tokens)
   \<and> parser_parse_expression (3 * remaining (parser_create chain_tokens) + 3)
         (parser_create chain_tokens) \<noteq> None
   \<and> parser_parse_expression (Suc (Suc 1)) (parser_create chain_tokens)
       = Some (Some a_plus_b, (parser_create chain_tokens)\<lparr>p_pos := 3\<rparr>)
   \<and> partial_expression_result (Some a_plus_b)
   \<and> operands_present a_plus_b
   \<and> expression_tree a_plus_b
   \<and> current_type ((parser_create chain_tokens)\<lparr>p_pos := 3\<rparr>) = TOKEN_MULTIPLY
   \<and> parser_parse_primary 4 (parser_create paren_tokens)
       = Some (Some a_plus_b, (parser_create paren_tokens)\<lparr>p_pos := 5\<rparr>)
   \<and> ntype a_plus_b = NODE_BINARY_OP
   \<and> current_type (parser_create paren_tokens) = TOKEN_LPAREN
   \<and> current_type (parser_create closing_parenthesis_tokens) = TOKEN_RPAREN
   \<and> parser_parse_primary (Suc 0) (parser_create closing_parenthesis_tokens)
       = Some (None, parser_create closing_parenthesis_tokens)"
proof -
  let ?P = "parser_create chain_tokens"
  let ?Q = "parser_create paren_tokens"
  let ?R = "parser_create closing_parenthesis_tokens"
  have w: "parser_wf ?P"
    by (simp add: parser_wf_def parser_create_def chain_tokens_def tok_def)
  from parse_expression_single_binary_application [of ?P] w
  have q: "parser_parse_expression (3 * remaining ?P + 3) ?P \<noteq> None"
    by auto
  have e: "parser_parse_expression (Suc (Suc 1)) ?P = Some (Some a_plus_b, ?P\<lparr>p_pos := 3\<rparr>)"
    by code_simp
  have c: "current_type (?P\<lparr>p_pos := 3\<rparr>) = TOKEN_MULTIPLY"
    by code_simp
  have p: "parser_parse_primary 4 ?Q = Some (Some a_plus_b, ?Q\<lparr>p_pos := 5\<rparr>)"
    by code_simp
  have k: "ntype a_plus_b = NODE_BINARY_OP"
    by (simp add: a_plus_b_def)
  have o: "operands_present a_plus_b"
    by (simp add: a_plus_b_def leaf_def)
  have x: "current_type ?R = TOKEN_RPAREN"
    by code_simp
  from parse_expression_single_binary_application
         [of ?P 1 "Some a_plus_b" "?P\<lparr>p_pos := 3\<rparr>" a_plus_b] e
  have t: "partial_expression_result (Some a_plus_b)"
    by blast
  have e3: "parser_parse_expression 3 ?P = Some (Some a_plus_b, ?P\<lparr>p_pos := 3\<rparr>)"
    using e by (simp add: numeral_3_eq_3)
  from parse_expression_single_binary_application
         [of ?P 3 "Some a_plus_b" "?P\<lparr>p_pos := 3\<rparr>" a_plus_b] e3 o
  have s: "expression_tree a_plus_b"
    by blast
  from parse_expression_single_binary_application
         [of ?Q 4 "Some a_plus_b" "?Q\<lparr>p_pos := 5\<rparr>" a_plus_b] p k
  have l: "current_type ?Q = TOKEN_LPAREN"
    by blast
  from parse_expression_single_binary_application [of ?R 0 None ?R a_plus_b] x
  have z: "parser_parse_primary (Suc 0) ?R = Some (None, ?R)"
    by simp
  from w q e t o s c p k l x z show ?thesis
    by blast
qed

text \<open>
  C1 (as stated) fails where no primary starts: on \<^verbatim>\<open>a +\<close> the result is a
  binary-operator node without a right operand, on \<^verbatim>\<open>-5\<close> one without a left operand,
  and on \<^verbatim>\<open>)\<close> there is no node at all. None of the three is a primary node or a
  binary-operator node over two primaries.
\<close>

theorem parse_expression_null_operand_counterexample:
  "parser_parse_expression 3 (parser_create dangling_operator_tokens)
     = Some (Some a_plus_null, (parser_create dangling_operator_tokens)\<lparr>p_pos := 2\<rparr>)
   \<and> left a_plus_null \<noteq> None \<and> right a_plus_null = None
   \<and> \<not> expression_tree a_plus_null
   \<and> parser_parse_expression 3 (parser_create leading_operator_tokens)
     = Some (Some null_minus_5, (parser_create leading_operator_tokens)\<lparr>p_pos := 2\<rparr>)
   \<and> left null_minus_5 = None \<and> right null_minus_5 \<noteq> None
   \<and> \<not> expression_tree null_minus_5
   \<and> parser_parse_expression 3 (parser_create closing_parenthesis_tokens)
     = Some (None, parser_create closing_parenthesis_tokens)"
proof -
  have "parser_parse_expression 3 (parser_create dangling_operator_tokens)
     = Some (Some a_plus_null, (parser_create dangling_operator_tokens)\<lparr>p_pos := 2\<rparr>)"
    by code_simp
  moreover have "parser_parse_expression 3 (parser_create leading_operator_tokens)
     = Some (Some null_minus_5, (parser_create leading_operator_tokens)\<lparr>p_pos := 2\<rparr>)"
    by code_simp
  moreover have "parser_parse_expression 3 (parser_create closing_parenthesis_tokens)
     = Some (None, parser_create closing_parenthesis_tokens)"
    by code_simp
  moreover have "left a_plus_null \<noteq> None" "right a_plus_null = None"
    "\<not> expression_tree a_plus_null"
    by (simp_all add: a_plus_null_def)
  moreover have "left null_minus_5 = None" "right null_minus_5 \<noteq> None"
    "\<not> expression_tree null_minus_5"
    by (simp_all add: null_minus_5_def)
  ultimately show ?thesis
    by blast
qed

lemma parser_parse_terminates_example:
  "parser_parse 8 (parser_create
      [tok TOKEN_LET ''let'', tok TOKEN_IDENTIFIER ''x'', tok TOKEN_ASSIGN ''='',
       tok TOKEN_NUMBER ''42'', tok TOKEN_EOF []])
   = Some (ASTNode NODE_PROGRAM [] None None None None None
            [ASTNode NODE_VAR_DECL ''x'' None (Some (leaf NODE_NUMBER ''42'')) None None None []
               sol_default] sol_default,
           (parser_create
      [tok TOKEN_LET ''let'', tok TOKEN_IDENTIFIER ''x'', tok TOKEN_ASSIGN ''='',
       tok TOKEN_NUMBER ''42'', tok TOKEN_EOF []])\<lparr>p_pos := 4\<rparr>)"
  by code_simp

end
